theory Spec2Isabelle
  imports Main "HOL-Library.Word" "HOL-Library.Sublist"
begin

chapter \<open>The authentication and token lifecycle of luff\<close>

text \<open>
  The development embeds three parts of the repository:
  \<^item> \<^verbatim>\<open>packages/shared/src/keychain.ts\<close> and the OAuth2 half of
    \<^verbatim>\<open>packages/shared/src/http.ts\<close> (the generic Authorization Code client);
  \<^item> \<^verbatim>\<open>packages/garmin/src/auth.ts\<close> (percent-encoding, the SSO login, the
    OAuth1 to OAuth2 exchange and the Garmin token check);
  \<^item> \<^verbatim>\<open>oauthCallbackFlow\<close> of the mail tool (the local callback listener).

  Definitions come first, the statements about them second.
\<close>

section \<open>JavaScript values\<close>

subsection \<open>Strings\<close>

text \<open>
  A JavaScript string is a sequence of 16-bit code units; \<open>length\<close>, \<open>includes\<close>,
  regular expressions without the \<open>u\<close> flag and \<open>charCodeAt\<close> all count code units.
  \<open>js\<close> writes an ASCII literal.
\<close>

type_synonym jschar = "16 word"
type_synonym jsstring = "jschar list"

definition js :: "string \<Rightarrow> jsstring" where
  "js s = map of_char s"

text \<open>
  White space as \<open>String.prototype.trim\<close>, \<open>parseInt\<close> and the class \<open>\s\<close> see it:
  the WhiteSpace and LineTerminator code points of ECMAScript.
\<close>

definition isWhiteSpace :: "jschar \<Rightarrow> bool" where
  "isWhiteSpace c \<longleftrightarrow>
     c = 0x09 \<or> c = 0x0A \<or> c = 0x0B \<or> c = 0x0C \<or> c = 0x0D \<or> c = 0x20 \<or> c = 0xA0 \<or>
     c = 0x1680 \<or> (0x2000 \<le> c \<and> c \<le> 0x200A) \<or> c = 0x2028 \<or> c = 0x2029 \<or>
     c = 0x202F \<or> c = 0x205F \<or> c = 0x3000 \<or> c = 0xFEFF"

definition isDigit :: "jschar \<Rightarrow> bool" where
  "isDigit c \<longleftrightarrow> 0x30 \<le> c \<and> c \<le> 0x39"

definition isAlpha :: "jschar \<Rightarrow> bool" where
  "isAlpha c \<longleftrightarrow> (0x41 \<le> c \<and> c \<le> 0x5A) \<or> (0x61 \<le> c \<and> c \<le> 0x7A)"

definition trim :: "jsstring \<Rightarrow> jsstring" where
  "trim s = rev (dropWhile isWhiteSpace (rev (dropWhile isWhiteSpace s)))"

text \<open>\<open>s.includes(p)\<close>: some suffix of \<open>s\<close> starts with \<open>p\<close>.\<close>

fun str_includes :: "jsstring \<Rightarrow> jsstring \<Rightarrow> bool" where
  "str_includes [] p = (p = [])"
| "str_includes (c # cs) p = (prefix p (c # cs) \<or> str_includes cs p)"

text \<open>\<open>xs.join(sep)\<close>.\<close>

fun join :: "jsstring \<Rightarrow> jsstring list \<Rightarrow> jsstring" where
  "join sep [] = []"
| "join sep [x] = x"
| "join sep (x # y # ys) = x @ sep @ join sep (y # ys)"

subsection \<open>Numbers and JSON\<close>

text \<open>
  The numbers of the embedded code are second counts. They are integers here, and
  \<open>NaN\<close> is the one other value that \<open>parseInt\<close> returns. Arithmetic is exact, as it
  is in JavaScript for integers below \<open>2^53\<close>; fractional numbers are outside the model.
  The clock is read as a natural number: \<open>Math.floor(Date.now() / 1000)\<close> after 1970.
\<close>

datatype jsnum = Num int | NaN

definition num_less :: "int \<Rightarrow> jsnum \<Rightarrow> bool" where
  "num_less a b = (case b of Num n \<Rightarrow> a < n | NaN \<Rightarrow> False)"


text \<open>
  \<open>parseInt(s, 10)\<close>: leading white space is skipped, one sign is read, and the longest
  run of decimal digits is the value; without a digit the result is \<open>NaN\<close>.
\<close>

definition digitsValue :: "jsstring \<Rightarrow> nat" where
  "digitsValue ds = foldl (\<lambda>n c. 10 * n + (unat c - 0x30)) 0 ds"

definition parseInt :: "jsstring \<Rightarrow> jsnum" where
  "parseInt s =
     (let t = dropWhile isWhiteSpace s;
          neg = (t \<noteq> [] \<and> hd t = 0x2D);
          r = (if t \<noteq> [] \<and> (hd t = 0x2B \<or> hd t = 0x2D) then tl t else t);
          z = takeWhile isDigit r
      in if z = [] then NaN
         else Num (if neg then - int (digitsValue z) else int (digitsValue z)))"

text \<open>\<open>String(n)\<close>, in the decimal notation JavaScript uses below \<open>10^21\<close>.\<close>

fun natToString :: "nat \<Rightarrow> jsstring" where
  "natToString n =
     (if n < 10 then [0x30 + of_nat n] else natToString (n div 10) @ [0x30 + of_nat (n mod 10)])"

declare natToString.simps [simp del]

definition numToString :: "jsnum \<Rightarrow> jsstring" where
  "numToString x =
     (case x of
        NaN \<Rightarrow> js ''NaN''
      | Num n \<Rightarrow> if n < 0 then 0x2D # natToString (nat (- n)) else natToString (nat n))"

text \<open>
  A value of \<open>res.json()\<close>. \<open>JObj kvs\<close> is the object whose property \<open>k\<close> is
  \<open>map_of kvs k\<close>. \<open>getProp\<close> reads a property of a value that is not \<open>null\<close>: of an
  object its own property, of anything else \<open>undefined\<close> (\<open>None\<close>); reading a property of
  \<open>null\<close> throws, and the functions below check for it where they first read one.
\<close>

datatype json =
    JNull
  | JBool bool
  | JNum int
  | JStr jsstring
  | JArr "json list"
  | JObj "(jsstring \<times> json) list"

fun getProp :: "json \<Rightarrow> jsstring \<Rightarrow> json option" where
  "getProp (JObj kvs) k = map_of kvs k"
| "getProp _ k = None"

text \<open>Truthiness (\<open>!v\<close> is its negation) and the operator \<open>??\<close>.\<close>

fun truthy :: "json option \<Rightarrow> bool" where
  "truthy None = False"
| "truthy (Some JNull) = False"
| "truthy (Some (JBool b)) = b"
| "truthy (Some (JNum n)) = (n \<noteq> 0)"
| "truthy (Some (JStr s)) = (s \<noteq> [])"
| "truthy (Some (JArr xs)) = True"
| "truthy (Some (JObj kvs)) = True"

definition coalesce :: "json option \<Rightarrow> json option \<Rightarrow> json option" where
  "coalesce a b = (if a = None \<or> a = Some JNull then b else a)"

text \<open>\<open>typeof v === "string" && v\<close>: a string that is not empty.\<close>

fun nonEmptyString :: "json option \<Rightarrow> bool" where
  "nonEmptyString (Some (JStr s)) = (s \<noteq> [])"
| "nonEmptyString _ = False"

text \<open>\<open>!v\<close> for a value of type \<open>string | null\<close>.\<close>

definition absent :: "jsstring option \<Rightarrow> bool" where
  "absent v \<longleftrightarrow> v = None \<or> v = Some []"

subsection \<open>Errors\<close>

text \<open>
  Every \<open>throw\<close> of the embedded code is a constructor; a thrown \<open>Error\<close> whose message
  interpolates a value carries that value. \<open>URIError\<close> is the exception of
  \<open>encodeURIComponent\<close>, \<open>TypeError\<close> that of reading a property of \<open>null\<close>;
  \<open>FetchRejected\<close> and \<open>JsonRejected\<close> stand for a rejected \<open>fetch\<close> and a rejected
  \<open>res.json()\<close>.
\<close>

datatype error =
    URIError
  | TypeError
  | FetchRejected
  | JsonRejected
  | NoCredentials jsstring
  | NotLoggedIn jsstring
  | TokenExchangeFailed json
  | TokenRefreshFailed json
  | InvalidAccessToken
  | NoRefreshToken
  | AccountLocked
  | MfaRequired
  | LoginFailed
  | NoSecret jsstring jsstring
  | KeychainWriteFailed jsstring jsstring
  | ConsumerFetchFailed nat
  | CsrfNotFound
  | OAuth1ExchangeFailed nat jsstring
  | NoOAuth1Token
  | OAuth2ExchangeFailed nat jsstring
  | OAuth1TokensMissing
  | RefreshTokenExpired
  | OAuth2Error jsstring
  | StateMismatch
  | CallbackTimeout

section \<open>Percent-encoding (\<^verbatim>\<open>garmin/src/auth.ts\<close>, \<open>percentEncode\<close>)\<close>

text \<open>
  \<open>encodeURIComponent\<close> is the \<open>Encode\<close> operation of ECMAScript with the unescaped set
  \<open>A-Z a-z 0-9 - _ . ! ~ * ' ( )\<close>: a code unit of the set is copied; otherwise the
  code point at that position is taken (a surrogate pair counts as one code point, an
  unpaired surrogate throws \<open>URIError\<close>), and each octet of its UTF-8 encoding becomes
  \<open>%\<close> and two upper-case hexadecimal digits.
\<close>

definition uriUnescaped :: "jschar \<Rightarrow> bool" where
  "uriUnescaped c \<longleftrightarrow>
     isAlpha c \<or> isDigit c \<or> c = 0x2D \<or> c = 0x5F \<or> c = 0x2E \<or> c = 0x21 \<or> c = 0x7E \<or>
     c = 0x2A \<or> c = 0x27 \<or> c = 0x28 \<or> c = 0x29"

definition isLeadSurrogate :: "jschar \<Rightarrow> bool" where
  "isLeadSurrogate c \<longleftrightarrow> 0xD800 \<le> c \<and> c \<le> 0xDBFF"

definition isTrailSurrogate :: "jschar \<Rightarrow> bool" where
  "isTrailSurrogate c \<longleftrightarrow> 0xDC00 \<le> c \<and> c \<le> 0xDFFF"

definition pairCodePoint :: "jschar \<Rightarrow> jschar \<Rightarrow> nat" where
  "pairCodePoint hi lo = (unat hi - 0xD800) * 0x400 + (unat lo - 0xDC00) + 0x10000"

definition utf8 :: "nat \<Rightarrow> nat list" where
  "utf8 cp =
     (if cp < 0x80 then [cp]
      else if cp < 0x800 then [0xC0 + cp div 0x40, 0x80 + cp mod 0x40]
      else if cp < 0x10000 then
        [0xE0 + cp div 0x1000, 0x80 + (cp div 0x40) mod 0x40, 0x80 + cp mod 0x40]
      else
        [0xF0 + cp div 0x40000, 0x80 + (cp div 0x1000) mod 0x40,
         0x80 + (cp div 0x40) mod 0x40, 0x80 + cp mod 0x40])"

definition hexDigit :: "nat \<Rightarrow> jschar" where
  "hexDigit d = (if d < 10 then 0x30 + of_nat d else 0x37 + of_nat d)"

definition pctOctet :: "nat \<Rightarrow> jsstring" where
  "pctOctet b = [0x25, hexDigit (b div 16), hexDigit (b mod 16)]"

definition pctCodePoint :: "nat \<Rightarrow> jsstring" where
  "pctCodePoint cp = concat (map pctOctet (utf8 cp))"

definition prepend :: "jsstring \<Rightarrow> error + jsstring \<Rightarrow> error + jsstring" where
  "prepend p r = (case r of Inl e \<Rightarrow> Inl e | Inr s \<Rightarrow> Inr (p @ s))"

fun encodeURIComponent :: "jsstring \<Rightarrow> error + jsstring" where
  "encodeURIComponent [] = Inr []"
| "encodeURIComponent (c # cs) =
     (if uriUnescaped c then prepend [c] (encodeURIComponent cs)
      else if isLeadSurrogate c then
        (case cs of
           [] \<Rightarrow> Inl URIError
         | d # ds \<Rightarrow>
             if isTrailSurrogate d
             then prepend (pctCodePoint (pairCodePoint c d)) (encodeURIComponent ds)
             else Inl URIError)
      else if isTrailSurrogate c then Inl URIError
      else prepend (pctCodePoint (unat c)) (encodeURIComponent cs))"

text \<open>
  \<open>n.toString(16)\<close> for a non-negative integer: lower-case digits, no padding.
  \<open>toUpperCase\<close> is embedded on ASCII only, which covers every string
  \<open>toString(16)\<close> returns.
\<close>

definition hexDigitLower :: "nat \<Rightarrow> jschar" where
  "hexDigitLower d = (if d < 10 then 0x30 + of_nat d else 0x57 + of_nat d)"

fun toString16 :: "nat \<Rightarrow> jsstring" where
  "toString16 n =
     (if n < 16 then [hexDigitLower n] else toString16 (n div 16) @ [hexDigitLower (n mod 16)])"

declare toString16.simps [simp del]

definition toUpperCase :: "jsstring \<Rightarrow> jsstring" where
  "toUpperCase s = map (\<lambda>c. if 0x61 \<le> c \<and> c \<le> 0x7A then c - 0x20 else c) s"

text \<open>\<open>s.replace(/[...]/g, f)\<close> for a class of single code units.\<close>

definition replaceAll :: "(jschar \<Rightarrow> bool) \<Rightarrow> (jschar \<Rightarrow> jsstring) \<Rightarrow> jsstring \<Rightarrow> jsstring" where
  "replaceAll cls f s = concat (map (\<lambda>c. if cls c then f c else [c]) s)"

definition subDelim :: "jschar \<Rightarrow> bool" where
  "subDelim c \<longleftrightarrow> c = 0x21 \<or> c = 0x27 \<or> c = 0x28 \<or> c = 0x29 \<or> c = 0x2A"

definition percentEncode :: "jsstring \<Rightarrow> error + jsstring" where
  "percentEncode str =
     (case encodeURIComponent str of
        Inl e \<Rightarrow> Inl e
      | Inr s \<Rightarrow> Inr (replaceAll subDelim (\<lambda>c. 0x25 # toUpperCase (toString16 (unat c))) s))"

text \<open>
  The rule of RFC 3986 in the specification's words: the unreserved characters are the
  ASCII letters, the digits and \<open>- . _ ~\<close>; they stand for themselves, and every other
  code point is written as the percent-escapes of its UTF-8 octets. \<open>codePoints\<close> reads
  a string as code points and has no result when a surrogate is unpaired.
\<close>

definition unreserved :: "jschar \<Rightarrow> bool" where
  "unreserved c \<longleftrightarrow> isAlpha c \<or> isDigit c \<or> c = 0x2D \<or> c = 0x2E \<or> c = 0x5F \<or> c = 0x7E"

fun codePoints :: "jsstring \<Rightarrow> nat list option" where
  "codePoints [] = Some []"
| "codePoints (c # cs) =
     (if isLeadSurrogate c then
        (case cs of
           [] \<Rightarrow> None
         | d # ds \<Rightarrow>
             if isTrailSurrogate d then map_option ((#) (pairCodePoint c d)) (codePoints ds)
             else None)
      else if isTrailSurrogate c then None
      else map_option ((#) (unat c)) (codePoints cs))"

definition rfc3986_escape :: "nat \<Rightarrow> jsstring" where
  "rfc3986_escape cp =
     (if cp < 0x80 \<and> unreserved (of_nat cp) then [of_nat cp] else pctCodePoint cp)"

definition rfc3986_encode :: "nat list \<Rightarrow> jsstring" where
  "rfc3986_encode cps = concat (map rfc3986_escape cps)"

text \<open>The three abbreviations the refinement proof of \<open>percentEncode\<close> works with.\<close>

definition sub_esc :: "jsstring \<Rightarrow> jsstring" where
  "sub_esc = replaceAll subDelim (\<lambda>c. 0x25 # toUpperCase (toString16 (unat c)))"

definition esc_result :: "error + jsstring \<Rightarrow> error + jsstring" where
  "esc_result r = (case r of Inl e \<Rightarrow> Inl e | Inr x \<Rightarrow> Inr (sub_esc x))"

definition spec_result :: "nat list option \<Rightarrow> error + jsstring" where
  "spec_result r = (case r of None \<Rightarrow> Inl URIError | Some cps \<Rightarrow> Inr (rfc3986_encode cps))"

section \<open>Classifying the sign-in response (\<^verbatim>\<open>garmin/src/auth.ts\<close>, \<open>login\<close>, lines 182 to 195)\<close>

text \<open>
  \<open>loginHtml.match(/ticket=([^"&\s]+)/)\<close>: the leftmost position at which \<open>ticket=\<close> is
  followed by at least one code unit other than \<open>"\<close>, \<open>&\<close> and white space; the group
  is the longest run of such code units there. \<open>ticketAt s\<close> says that the expression
  matches at the start of \<open>s\<close>.
\<close>

definition ticketChar :: "jschar \<Rightarrow> bool" where
  "ticketChar c \<longleftrightarrow> c \<noteq> 0x22 \<and> c \<noteq> 0x26 \<and> \<not> isWhiteSpace c"

definition ticketAt :: "jsstring \<Rightarrow> bool" where
  "ticketAt s \<longleftrightarrow> prefix (js ''ticket='') s \<and> takeWhile ticketChar (drop 7 s) \<noteq> []"

fun matchTicket :: "jsstring \<Rightarrow> jsstring option" where
  "matchTicket [] = None"
| "matchTicket (c # cs) =
     (if ticketAt (c # cs) then Some (takeWhile ticketChar (drop 7 (c # cs)))
      else matchTicket cs)"

text \<open>
  The checks of \<open>login\<close> on the body of the credential submission, in the order of the
  source: \<open>locked\<close> first, then the ticket, and the \<open>MFA\<close> test only when no ticket
  was found.
\<close>

definition login_outcome :: "jsstring \<Rightarrow> error + jsstring" where
  "login_outcome loginHtml =
     (if str_includes loginHtml (js ''locked'') then Inl AccountLocked
      else case matchTicket loginHtml of
             None \<Rightarrow>
               if str_includes loginHtml (js ''MFA'') then Inl MfaRequired
               else Inl LoginFailed
           | Some ticket \<Rightarrow> Inr ticket)"

text \<open>
  The same classification in words that do not mention the search: \<open>occurs p s\<close> says
  that \<open>p\<close> is a substring of \<open>s\<close>; \<open>ticketOccurs s\<close> that \<open>ticket=\<close> is somewhere
  followed by a ticket character; \<open>firstTicket s t\<close> that \<open>t\<close> is the longest run of ticket
  characters after the leftmost such place.
\<close>

definition occurs :: "jsstring \<Rightarrow> jsstring \<Rightarrow> bool" where
  "occurs p s \<longleftrightarrow> (\<exists>u v. s = u @ p @ v)"

definition ticketOccurs :: "jsstring \<Rightarrow> bool" where
  "ticketOccurs s \<longleftrightarrow> (\<exists>u c w. s = u @ js ''ticket='' @ c # w \<and> ticketChar c)"

definition firstTicket :: "jsstring \<Rightarrow> jsstring \<Rightarrow> bool" where
  "firstTicket s t \<longleftrightarrow>
     (\<exists>u v. s = u @ js ''ticket='' @ t @ v \<and> t \<noteq> [] \<and> (\<forall>c \<in> set t. ticketChar c) \<and>
        (v = [] \<or> \<not> ticketChar (hd v)) \<and>
        (\<forall>u' c w. s = u' @ js ''ticket='' @ c # w \<and> ticketChar c \<longrightarrow> length u \<le> length u'))"

section \<open>The world: Keychain and network\<close>

text \<open>
  The code acts on two things outside the process: the macOS Keychain, through the
  \<open>security\<close> command, and the network, through \<open>fetch\<close>. The state that is passed
  along holds the Keychain and a log of what was done, in order; the network and the
  other library functions whose results the code takes as given are an environment.

  A request carries what the code hands to \<open>fetch\<close>; the body, when there is one, is the
  list of fields of its \<open>URLSearchParams\<close>.
\<close>

record request =
  req_method :: jsstring
  req_url :: jsstring
  req_headers :: "(jsstring \<times> jsstring) list"
  req_body :: "(jsstring \<times> jsstring) list option"
  req_manual :: bool

record response =
  res_status :: nat
  res_setCookie :: "jsstring list"
  res_text :: jsstring

definition ok :: "response \<Rightarrow> bool" where
  "ok res \<longleftrightarrow> 200 \<le> res_status res \<and> res_status res \<le> 299"

datatype event =
    Fetched request
  | SecretSet jsstring jsstring jsstring

record world =
  keychain :: "jsstring \<times> jsstring \<Rightarrow> jsstring option"
  events :: "event list"

definition fetches :: "world \<Rightarrow> request list" where
  "fetches w = concat (map (\<lambda>e. case e of Fetched r \<Rightarrow> [r] | SecretSet t a v \<Rightarrow> []) (events w))"

definition sent :: "world \<Rightarrow> request \<Rightarrow> world" where
  "sent w req = w\<lparr>events := events w @ [Fetched req]\<rparr>"

section \<open>The Keychain (\<^verbatim>\<open>shared/src/keychain.ts\<close>)\<close>

text \<open>
  The Keychain maps a service and an account to a password.
  \<open>security find-generic-password -w\<close> prints the password and a line break, or fails when
  there is no item; \<open>getSecret\<close> trims what was printed.

  \<open>security add-generic-password -U\<close> stores or replaces the item, or fails, and then
  \<open>setSecret\<close> throws. Whether the call succeeds is not decided by the code: a policy
  \<open>kc\<close> says so, from the world at the time of the call, the service, the account and
  the value. A call that fails leaves the Keychain as it was.
\<close>

type_synonym keychain_policy = "world \<Rightarrow> jsstring \<Rightarrow> jsstring \<Rightarrow> jsstring \<Rightarrow> bool"

definition serviceName :: "jsstring \<Rightarrow> jsstring" where
  "serviceName tool = js ''luff-'' @ tool"

definition stored :: "world \<Rightarrow> jsstring \<Rightarrow> jsstring \<Rightarrow> jsstring \<Rightarrow> world" where
  "stored w tool account v =
     w\<lparr>keychain := (keychain w)((serviceName tool, account) \<mapsto> v),
       events := events w @ [SecretSet tool account v]\<rparr>"

definition setSecret ::
    "keychain_policy \<Rightarrow> world \<Rightarrow> jsstring \<Rightarrow> jsstring \<Rightarrow> jsstring \<Rightarrow> (error + unit) \<times> world" where
  "setSecret kc w tool account v =
     (if kc w (serviceName tool) account v then (Inr (), stored w tool account v)
      else (Inl (KeychainWriteFailed (serviceName tool) account), w))"

definition getSecret :: "world \<Rightarrow> jsstring \<Rightarrow> jsstring \<Rightarrow> jsstring option" where
  "getSecret w tool account =
     (case keychain w (serviceName tool, account) of
        None \<Rightarrow> None
      | Some v \<Rightarrow> Some (trim (v @ [0x0A])))"

text \<open>
  A run of \<open>setSecret\<close> calls that follow one another in the source, with their
  arguments. The first call that throws ends the run, and what was written before it
  stays. An argument \<open>None\<close> is a value that \<open>execFileSync\<close> does not take; the call
  throws inside the \<open>try\<close> of \<open>setSecret\<close>.
\<close>

fun setSecrets ::
    "keychain_policy \<Rightarrow> world \<Rightarrow> jsstring \<Rightarrow> (jsstring \<times> jsstring option) list \<Rightarrow>
     (error + unit) \<times> world" where
  "setSecrets kc w tool [] = (Inr (), w)"
| "setSecrets kc w tool ((account, arg) # rest) =
     (case arg of
        None \<Rightarrow> (Inl (KeychainWriteFailed (serviceName tool) account), w)
      | Some v \<Rightarrow>
          (case setSecret kc w tool account v of
             (Inl err, w1) \<Rightarrow> (Inl err, w1)
           | (Inr u, w1) \<Rightarrow> setSecrets kc w1 tool rest))"

text \<open>
  For the statements: the world after a list of entries was written, and the condition
  that the policy lets each of these writes through in its turn.
\<close>

fun stored_all :: "world \<Rightarrow> jsstring \<Rightarrow> (jsstring \<times> jsstring) list \<Rightarrow> world" where
  "stored_all w tool [] = w"
| "stored_all w tool ((account, v) # rest) = stored_all (stored w tool account v) tool rest"

fun accepts_all ::
    "keychain_policy \<Rightarrow> world \<Rightarrow> jsstring \<Rightarrow> (jsstring \<times> jsstring) list \<Rightarrow> bool" where
  "accepts_all kc w tool [] = True"
| "accepts_all kc w tool ((account, v) # rest) =
     (kc w (serviceName tool) account v \<and> accepts_all kc (stored w tool account v) tool rest)"

section \<open>The OAuth2 client (\<^verbatim>\<open>shared/src/http.ts\<close>)\<close>

text \<open>
  The environment: \<open>fetch\<close> gives the response to a request, or nothing when the promise
  rejects; \<open>json_parse\<close> is \<open>res.json()\<close> on the text of a body, or nothing when it
  rejects.
\<close>

record env =
  fetch :: "request \<Rightarrow> response option"
  json_parse :: "jsstring \<Rightarrow> json option"

record OAuth2Config =
  authorizeUrl :: jsstring
  tokenUrl :: jsstring
  scopes :: "jsstring list"

record OAuth2Tokens =
  accessToken :: jsstring
  refreshToken :: jsstring
  expiresAt :: jsnum

record credentials =
  clientId :: jsstring
  clientSecret :: jsstring
  redirectUri :: jsstring

definition loadOAuth2Credentials :: "world \<Rightarrow> jsstring \<Rightarrow> error + credentials" where
  "loadOAuth2Credentials w tool =
     (let cid = getSecret w tool (js ''client-id'');
          csec = getSecret w tool (js ''client-secret'');
          ruri = getSecret w tool (js ''redirect-uri'')
      in if absent cid \<or> absent csec \<or> absent ruri then Inl (NoCredentials tool)
         else Inr \<lparr>clientId = the cid, clientSecret = the csec, redirectUri = the ruri\<rparr>)"

text \<open>\<open>parseTokenResponse\<close>; \<open>now\<close> is its reading of the clock.\<close>

definition expiresIn :: "json option \<Rightarrow> int" where
  "expiresIn rawExpires =
     (case rawExpires of
        Some (JNum n) \<Rightarrow> n
      | Some (JStr s) \<Rightarrow>
          (case parseInt s of Num k \<Rightarrow> if k = 0 then 3600 else k | NaN \<Rightarrow> 3600)
      | _ \<Rightarrow> 3600)"

definition parseTokenResponse :: "nat \<Rightarrow> json \<Rightarrow> jsstring option \<Rightarrow> error + OAuth2Tokens" where
  "parseTokenResponse now data existingRefreshToken =
     (if data = JNull then Inl TypeError
      else case getProp data (js ''access_token'') of
        Some (JStr access) \<Rightarrow>
          if access = [] then Inl InvalidAccessToken
          else
            let rawRefresh = getProp data (js ''refresh_token'');
                refresh = (case rawRefresh of
                             Some (JStr r) \<Rightarrow> if r \<noteq> [] then Some r else existingRefreshToken
                           | _ \<Rightarrow> existingRefreshToken)
            in if absent refresh then Inl NoRefreshToken
               else Inr \<lparr>accessToken = access, refreshToken = the refresh,
                         expiresAt = Num (int now + expiresIn (getProp data (js ''expires_in'')) - 60)\<rparr>
      | _ \<Rightarrow> Inl InvalidAccessToken)"

definition formHeaders :: "(jsstring \<times> jsstring) list" where
  "formHeaders = [(js ''Content-Type'', js ''application/x-www-form-urlencoded'')]"

definition exchangeRequest ::
    "OAuth2Config \<Rightarrow> jsstring \<Rightarrow> jsstring \<Rightarrow> jsstring \<Rightarrow> jsstring \<Rightarrow> request" where
  "exchangeRequest config cid csec ruri code =
     \<lparr>req_method = js ''POST'', req_url = tokenUrl config, req_headers = formHeaders,
      req_body = Some [(js ''grant_type'', js ''authorization_code''), (js ''code'', code),
                   (js ''client_id'', cid), (js ''client_secret'', csec),
                   (js ''redirect_uri'', ruri)],
      req_manual = False\<rparr>"

definition refreshRequest :: "OAuth2Config \<Rightarrow> jsstring \<Rightarrow> jsstring \<Rightarrow> jsstring \<Rightarrow> request" where
  "refreshRequest config cid csec rtok =
     \<lparr>req_method = js ''POST'', req_url = tokenUrl config, req_headers = formHeaders,
      req_body = Some [(js ''grant_type'', js ''refresh_token''), (js ''refresh_token'', rtok),
                   (js ''client_id'', cid), (js ''client_secret'', csec),
                   (js ''scope'', join (js '' '') (scopes config))],
      req_manual = False\<rparr>"

definition errorField :: "json \<Rightarrow> json" where
  "errorField data =
     the (coalesce (getProp data (js ''error_description''))
            (coalesce (getProp data (js ''error'')) (Some (JStr (js ''unknown'')))))"

definition exchangeCode ::
    "env \<Rightarrow> nat \<Rightarrow> world \<Rightarrow> OAuth2Config \<Rightarrow> jsstring \<Rightarrow> jsstring \<Rightarrow> jsstring \<Rightarrow> jsstring \<Rightarrow>
     (error + OAuth2Tokens) \<times> world" where
  "exchangeCode e now w config cid csec ruri code =
     (let req = exchangeRequest config cid csec ruri code; w1 = sent w req
      in case fetch e req of
           None \<Rightarrow> (Inl FetchRejected, w1)
         | Some res \<Rightarrow>
             (case json_parse e (res_text res) of
                None \<Rightarrow> (Inl JsonRejected, w1)
              | Some data \<Rightarrow>
                  if data = JNull then (Inl TypeError, w1)
                  else if \<not> truthy (getProp data (js ''access_token''))
                  then (Inl (TokenExchangeFailed (errorField data)), w1)
                  else (parseTokenResponse now data None, w1)))"

definition refreshAccessToken ::
    "env \<Rightarrow> nat \<Rightarrow> world \<Rightarrow> OAuth2Config \<Rightarrow> jsstring \<Rightarrow> jsstring \<Rightarrow> jsstring \<Rightarrow>
     (error + OAuth2Tokens) \<times> world" where
  "refreshAccessToken e now w config cid csec rtok =
     (let req = refreshRequest config cid csec rtok; w1 = sent w req
      in case fetch e req of
           None \<Rightarrow> (Inl FetchRejected, w1)
         | Some res \<Rightarrow>
             (case json_parse e (res_text res) of
                None \<Rightarrow> (Inl JsonRejected, w1)
              | Some data \<Rightarrow>
                  if data = JNull then (Inl TypeError, w1)
                  else if \<not> truthy (getProp data (js ''access_token''))
                  then (Inl (TokenRefreshFailed (errorField data)), w1)
                  else (parseTokenResponse now data (Some rtok), w1)))"

definition saveTokens ::
    "keychain_policy \<Rightarrow> world \<Rightarrow> jsstring \<Rightarrow> OAuth2Tokens \<Rightarrow> (error + unit) \<times> world" where
  "saveTokens kc w tool tokens =
     setSecrets kc w tool
       [(js ''access-token'', Some (accessToken tokens)),
        (js ''refresh-token'', Some (refreshToken tokens)),
        (js ''expires-at'', Some (numToString (expiresAt tokens)))]"

definition loadTokens :: "world \<Rightarrow> jsstring \<Rightarrow> OAuth2Tokens option" where
  "loadTokens w tool =
     (let access = getSecret w tool (js ''access-token'');
          refresh = getSecret w tool (js ''refresh-token'');
          expires = getSecret w tool (js ''expires-at'')
      in if absent access \<or> absent refresh then None
         else Some \<lparr>accessToken = the access, refreshToken = the refresh,
                    expiresAt = (if absent expires then Num 0 else parseInt (the expires))\<rparr>)"

text \<open>
  \<open>getValidAccessToken\<close>: \<open>now\<close> is its own reading of the clock, \<open>now'\<close> the later one of
  \<open>parseTokenResponse\<close>; \<open>credentialsTool\<close> is \<open>None\<close> when the argument is left out.
\<close>

definition getValidAccessToken ::
    "keychain_policy \<Rightarrow> env \<Rightarrow> nat \<Rightarrow> nat \<Rightarrow> world \<Rightarrow> jsstring \<Rightarrow> OAuth2Config \<Rightarrow>
     jsstring option \<Rightarrow> (error + jsstring) \<times> world" where
  "getValidAccessToken kc e now now' w tool config credentialsTool =
     (case loadTokens w tool of
        None \<Rightarrow> (Inl (NotLoggedIn tool), w)
      | Some tokens \<Rightarrow>
          if num_less (int now) (expiresAt tokens) then (Inr (accessToken tokens), w)
          else
            (case loadOAuth2Credentials w (case credentialsTool of None \<Rightarrow> tool | Some c \<Rightarrow> c) of
               Inl err \<Rightarrow> (Inl err, w)
             | Inr creds \<Rightarrow>
                 (case refreshAccessToken e now' w config (clientId creds) (clientSecret creds)
                         (refreshToken tokens) of
                    (Inl err, w1) \<Rightarrow> (Inl err, w1)
                  | (Inr refreshed, w1) \<Rightarrow>
                      (case saveTokens kc w1 tool refreshed of
                         (Inl err, w2) \<Rightarrow> (Inl err, w2)
                       | (Inr u, w2) \<Rightarrow> (Inr (accessToken refreshed), w2)))))"

section \<open>Garmin authentication (\<^verbatim>\<open>garmin/src/auth.ts\<close>)\<close>

text \<open>
  The environment of the Garmin flow adds to the network what the code takes from
  libraries. \<open>form_get t k\<close> is \<open>new URLSearchParams(t).get(k)\<close>. \<open>oauth1Header\<close> and
  \<open>oauth1HeaderNoToken\<close> are the two signing functions: they draw a nonce from
  \<open>randomBytes\<close>, read the clock and call HMAC-SHA1 of \<open>node:crypto\<close>, so their result is
  taken as given; it is \<open>None\<close> when \<open>percentEncode\<close> throws inside them.

  The two answers that the code reads with \<open>res.json()\<close> are cast to a declared shape
  and not checked, so a field of the answer is any JSON value, or \<open>undefined\<close> when it is
  missing (\<open>None\<close>), and the consumer key and secret reach the signing functions as
  such. \<open>arg_text v\<close> is what \<open>execFileSync\<close> makes of an argument \<open>v\<close> that is no
  string: the text it passes to the command, or \<open>None\<close> when it throws.
  \<open>sum_text now v\<close> is \<open>String(now + v - 60)\<close> for the values \<open>v\<close> for which the
  arithmetic of JavaScript is not written out below.
\<close>

record Consumer =
  consumer_key :: "json option"
  consumer_secret :: "json option"

record garmin_env = env +
  form_get :: "jsstring \<Rightarrow> jsstring \<Rightarrow> jsstring option"
  arg_text :: "json option \<Rightarrow> jsstring option"
  sum_text :: "nat \<Rightarrow> json \<Rightarrow> jsstring"
  oauth1Header ::
    "jsstring \<Rightarrow> jsstring \<Rightarrow> json option \<Rightarrow> json option \<Rightarrow> jsstring \<Rightarrow> jsstring \<Rightarrow>
     jsstring option"
  oauth1HeaderNoToken ::
    "jsstring \<Rightarrow> jsstring \<Rightarrow> json option \<Rightarrow> json option \<Rightarrow> (jsstring \<times> jsstring) list \<Rightarrow>
     jsstring option"

definition TOOL :: jsstring where
  "TOOL = js ''garmin''"

definition SSO_ORIGIN :: jsstring where
  "SSO_ORIGIN = js ''https://sso.garmin.com''"

definition CONNECT_API :: jsstring where
  "CONNECT_API = js ''https://connectapi.garmin.com''"

definition GC_MODERN :: jsstring where
  "GC_MODERN = js ''https://connect.garmin.com/modern''"

definition CONSUMER_URL :: jsstring where
  "CONSUMER_URL = js ''https://thegarth.s3.amazonaws.com/oauth_consumer.json''"

definition UA :: jsstring where
  "UA = js ''com.garmin.android.apps.connectmobile''"

definition requireSecret :: "world \<Rightarrow> jsstring \<Rightarrow> jsstring \<Rightarrow> error + jsstring" where
  "requireSecret w tool account =
     (case getSecret w tool account of None \<Rightarrow> Inl (NoSecret tool account) | Some v \<Rightarrow> Inr v)"

definition consumerRequest :: request where
  "consumerRequest =
     \<lparr>req_method = js ''GET'', req_url = CONSUMER_URL, req_headers = [], req_body = None,
      req_manual = False\<rparr>"

text \<open>
  The argument that \<open>setSecret\<close> hands to \<open>execFileSync\<close> for a field of an answer, and
  the text \<open>String(now + v - 60)\<close> for a field \<open>v\<close>. A number is added; \<open>undefined\<close>
  gives \<open>NaN\<close>; \<open>null\<close> and the booleans count as 0 and 1; a string is appended to the
  digits of \<open>now\<close> before 60 is subtracted, which is written out for a string of digits
  whose result is below \<open>2 ^ 53\<close>.
\<close>

definition secretArg :: "'a garmin_env_scheme \<Rightarrow> json option \<Rightarrow> jsstring option" where
  "secretArg e v = (case v of Some (JStr s) \<Rightarrow> Some s | _ \<Rightarrow> arg_text e v)"

definition expiryText :: "'a garmin_env_scheme \<Rightarrow> nat \<Rightarrow> json option \<Rightarrow> jsstring" where
  "expiryText e now v =
     (case v of
        None \<Rightarrow> numToString NaN
      | Some JNull \<Rightarrow> numToString (Num (int now - 60))
      | Some (JBool b) \<Rightarrow> numToString (Num (int now + (if b then 1 else 0) - 60))
      | Some (JNum n) \<Rightarrow> numToString (Num (int now + n - 60))
      | Some (JStr s) \<Rightarrow>
          if list_all isDigit s \<and> digitsValue (natToString now @ s) < 2 ^ 53
          then numToString (Num (int (digitsValue (natToString now @ s)) - 60))
          else sum_text e now (JStr s)
      | Some other \<Rightarrow> sum_text e now other)"

text \<open>
  \<open>getConsumer\<close>. The answer of the consumer address is cast to \<open>Consumer\<close>; reading
  a field of \<open>null\<close> throws a \<open>TypeError\<close> before anything is written.
\<close>

definition getConsumer ::
    "keychain_policy \<Rightarrow> 'a garmin_env_scheme \<Rightarrow> world \<Rightarrow> (error + Consumer) \<times> world" where
  "getConsumer kc e w =
     (let cached = getSecret w TOOL (js ''consumer-key'')
      in if \<not> absent cached then
           (case requireSecret w TOOL (js ''consumer-secret'') of
              Inl err \<Rightarrow> (Inl err, w)
            | Inr sec \<Rightarrow>
                (Inr \<lparr>consumer_key = Some (JStr (the cached)),
                      consumer_secret = Some (JStr sec)\<rparr>, w))
         else
           let w1 = sent w consumerRequest
           in case fetch e consumerRequest of
                None \<Rightarrow> (Inl FetchRejected, w1)
              | Some res \<Rightarrow>
                  if \<not> ok res then (Inl (ConsumerFetchFailed (res_status res)), w1)
                  else
                    (case json_parse e (res_text res) of
                       None \<Rightarrow> (Inl JsonRejected, w1)
                     | Some data \<Rightarrow>
                         if data = JNull then (Inl TypeError, w1)
                         else
                           let consumer =
                                 \<lparr>consumer_key = getProp data (js ''consumer_key''),
                                  consumer_secret = getProp data (js ''consumer_secret'')\<rparr>
                           in (case setSecrets kc w1 TOOL
                                      [(js ''consumer-key'', secretArg e (consumer_key consumer)),
                                       (js ''consumer-secret'',
                                        secretArg e (consumer_secret consumer))] of
                                 (Inl err, w2) \<Rightarrow> (Inl err, w2)
                               | (Inr u, w2) \<Rightarrow> (Inr consumer, w2))))"

text \<open>
  \<open>exchangeOAuth2\<close>; \<open>now\<close> is its reading of the clock, after the response. The answer
  is cast to the four declared fields and not checked; the four writes follow one
  another, and one that throws leaves the earlier ones in the Keychain.
\<close>

definition exchangeUrl :: jsstring where
  "exchangeUrl = CONNECT_API @ js ''/oauth-service/oauth/exchange/user/2.0''"

definition exchangeOAuth2Request :: "jsstring \<Rightarrow> request" where
  "exchangeOAuth2Request authHeader =
     \<lparr>req_method = js ''POST'', req_url = exchangeUrl,
      req_headers = [(js ''User-Agent'', UA), (js ''Authorization'', authHeader),
                     (js ''Content-Type'', js ''application/x-www-form-urlencoded'')],
      req_body = None, req_manual = False\<rparr>"

definition exchangeOAuth2 ::
    "keychain_policy \<Rightarrow> 'a garmin_env_scheme \<Rightarrow> nat \<Rightarrow> world \<Rightarrow> Consumer \<Rightarrow> jsstring \<Rightarrow>
     jsstring \<Rightarrow> (error + unit) \<times> world" where
  "exchangeOAuth2 kc e now w consumer oauthToken oauthTokenSecret =
     (case oauth1Header e (js ''POST'') exchangeUrl (consumer_key consumer)
             (consumer_secret consumer) oauthToken oauthTokenSecret of
        None \<Rightarrow> (Inl URIError, w)
      | Some authHeader \<Rightarrow>
          let req = exchangeOAuth2Request authHeader; w1 = sent w req
          in (case fetch e req of
                None \<Rightarrow> (Inl FetchRejected, w1)
              | Some res \<Rightarrow>
                  if \<not> ok res
                  then (Inl (OAuth2ExchangeFailed (res_status res) (res_text res)), w1)
                  else
                    (case json_parse e (res_text res) of
                       None \<Rightarrow> (Inl JsonRejected, w1)
                     | Some data \<Rightarrow>
                         if data = JNull then (Inl TypeError, w1)
                         else
                           setSecrets kc w1 TOOL
                             [(js ''access-token'',
                               secretArg e (getProp data (js ''access_token''))),
                              (js ''refresh-token'',
                               secretArg e (getProp data (js ''refresh_token''))),
                              (js ''expires-at'',
                               Some (expiryText e now (getProp data (js ''expires_in'')))),
                              (js ''refresh-expires-at'',
                               Some (expiryText e now
                                       (getProp data (js ''refresh_token_expires_in''))))])))"

text \<open>
  \<open>getValidAccessToken\<close> of the Garmin module; \<open>now\<close> is its own reading of the clock,
  \<open>now'\<close> that of \<open>exchangeOAuth2\<close>.
\<close>

definition orZero :: "jsstring option \<Rightarrow> jsstring" where
  "orZero v = (case v of None \<Rightarrow> js ''0'' | Some s \<Rightarrow> s)"


subsection \<open>The SSO login\<close>

text \<open>
  \<open>csrfHtml.match(/name="_csrf"\s+value="(.+?)"/)\<close>. At a position the expression needs
  the text \<open>name="_csrf"\<close>, a run of white space that is not empty, the text
  \<open>value="\<close>, then one character that is no line terminator and, lazily, further such
  characters up to the next double quote. The leftmost position that matches wins.
\<close>

definition isLineTerminator :: "jschar \<Rightarrow> bool" where
  "isLineTerminator c \<longleftrightarrow> c = 0x0A \<or> c = 0x0D \<or> c = 0x2028 \<or> c = 0x2029"

definition csrfName :: jsstring where
  "csrfName = js ''name='' @ [0x22] @ js ''_csrf'' @ [0x22]"

definition csrfValue :: jsstring where
  "csrfValue = js ''value='' @ [0x22]"

definition csrfAt :: "jsstring \<Rightarrow> jsstring option" where
  "csrfAt s =
     (if prefix csrfName s then
        let r1 = drop (length csrfName) s;
            r2 = dropWhile isWhiteSpace r1
        in if takeWhile isWhiteSpace r1 \<noteq> [] \<and> prefix csrfValue r2 then
             (case drop (length csrfValue) r2 of
                [] \<Rightarrow> None
              | c # r3 \<Rightarrow>
                  if isLineTerminator c then None
                  else
                    let inner = takeWhile (\<lambda>x. x \<noteq> 0x22 \<and> \<not> isLineTerminator x) r3;
                        rest = dropWhile (\<lambda>x. x \<noteq> 0x22 \<and> \<not> isLineTerminator x) r3
                    in if rest \<noteq> [] \<and> hd rest = 0x22 then Some (c # inner) else None)
           else None
      else None)"

fun matchCsrf :: "jsstring \<Rightarrow> jsstring option" where
  "matchCsrf [] = None"
| "matchCsrf (c # cs) =
     (case csrfAt (c # cs) of Some token \<Rightarrow> Some token | None \<Rightarrow> matchCsrf cs)"

text \<open>The cookie helpers: \<open>c.split(";")[0]\<close> is the part before the first semicolon.\<close>

definition extractCookies :: "response \<Rightarrow> jsstring" where
  "extractCookies res = join (js ''; '') (map (takeWhile (\<lambda>c. c \<noteq> 0x3B)) (res_setCookie res))"

definition mergeCookies :: "jsstring \<Rightarrow> jsstring \<Rightarrow> jsstring" where
  "mergeCookies existing fresh =
     (if existing = [] then fresh
      else if fresh = [] then existing
      else existing @ js ''; '' @ fresh)"

text \<open>
  The two addresses of the sign-in. Their query strings are constants of the source:
  \<open>encodeURIComponent(GC_MODERN)\<close> in the first, the serialisation of \<open>signinParams\<close> in
  the second, written out.
\<close>

definition embedUrl :: jsstring where
  "embedUrl =
     SSO_ORIGIN @ js ''/sso/embed?clientId=GarminConnect&locale=en&service='' @
     projr (encodeURIComponent GC_MODERN)"

definition signinUrl :: jsstring where
  "signinUrl =
     SSO_ORIGIN @ js ''/sso/signin?'' @
     js ''id=gauth-widget&embedWidget=true&clientId=GarminConnect&locale=en'' @
     js ''&service=https%3A%2F%2Fconnect.garmin.com%2Fmodern''"

definition embedRequest :: request where
  "embedRequest =
     \<lparr>req_method = js ''GET'', req_url = embedUrl, req_headers = [(js ''User-Agent'', UA)],
      req_body = None, req_manual = True\<rparr>"

definition csrfRequest :: "jsstring \<Rightarrow> request" where
  "csrfRequest cookies =
     \<lparr>req_method = js ''GET'', req_url = signinUrl,
      req_headers = [(js ''User-Agent'', UA), (js ''Cookie'', cookies)],
      req_body = None, req_manual = False\<rparr>"

definition loginRequest :: "jsstring \<Rightarrow> jsstring \<Rightarrow> jsstring \<Rightarrow> jsstring \<Rightarrow> request" where
  "loginRequest allCookies email password csrf =
     \<lparr>req_method = js ''POST'', req_url = signinUrl,
      req_headers = [(js ''User-Agent'', UA),
                     (js ''Content-Type'', js ''application/x-www-form-urlencoded''),
                     (js ''Cookie'', allCookies)],
      req_body = Some [(js ''username'', email), (js ''password'', password),
                       (js ''embed'', js ''true''), (js ''_csrf'', csrf)],
      req_manual = True\<rparr>"

definition oauth1Url :: jsstring where
  "oauth1Url = CONNECT_API @ js ''/oauth-service/oauth/preauthorized''"

definition preauthorizedRequest :: "jsstring \<Rightarrow> jsstring \<Rightarrow> request" where
  "preauthorizedRequest authHeader encodedTicket =
     \<lparr>req_method = js ''GET'', req_url = oauth1Url @ js ''?ticket='' @ encodedTicket,
      req_headers = [(js ''User-Agent'', UA), (js ''Authorization'', authHeader)],
      req_body = None, req_manual = False\<rparr>"

text \<open>
  \<open>login\<close> in two parts. \<open>login_ticket\<close> is the source up to the ticket (lines 136 to
  195): the consumer, the two requests for cookies and CSRF token, the submission of
  the credentials and the classification of its body. \<open>login_tokens\<close> is the rest (lines
  197 to 232): the ticket is exchanged for the OAuth1 token and secret, both are
  stored, and \<open>exchangeOAuth2\<close> is called. The final \<open>console.log\<close> is left out.
\<close>

definition login_ticket ::
    "keychain_policy \<Rightarrow> 'a garmin_env_scheme \<Rightarrow> world \<Rightarrow> jsstring \<Rightarrow> jsstring \<Rightarrow>
     (error + Consumer \<times> jsstring) \<times> world" where
  "login_ticket kc e w email password =
     (case getConsumer kc e w of
        (Inl err, w0) \<Rightarrow> (Inl err, w0)
      | (Inr consumer, w0) \<Rightarrow>
          let w1 = sent w0 embedRequest
          in (case fetch e embedRequest of
                None \<Rightarrow> (Inl FetchRejected, w1)
              | Some embedRes \<Rightarrow>
                  let cookies = extractCookies embedRes;
                      w2 = sent w1 (csrfRequest cookies)
                  in (case fetch e (csrfRequest cookies) of
                        None \<Rightarrow> (Inl FetchRejected, w2)
                      | Some csrfRes \<Rightarrow>
                          (case matchCsrf (res_text csrfRes) of
                             None \<Rightarrow> (Inl CsrfNotFound, w2)
                           | Some csrf \<Rightarrow>
                               let allCookies = mergeCookies cookies (extractCookies csrfRes);
                                   req = loginRequest allCookies email password csrf;
                                   w3 = sent w2 req
                               in (case fetch e req of
                                     None \<Rightarrow> (Inl FetchRejected, w3)
                                   | Some loginRes \<Rightarrow>
                                       (case login_outcome (res_text loginRes) of
                                          Inl err \<Rightarrow> (Inl err, w3)
                                        | Inr ticket \<Rightarrow> (Inr (consumer, ticket), w3)))))))"

definition login_tokens ::
    "keychain_policy \<Rightarrow> 'a garmin_env_scheme \<Rightarrow> nat \<Rightarrow> world \<Rightarrow> Consumer \<Rightarrow> jsstring \<Rightarrow>
     (error + unit) \<times> world" where
  "login_tokens kc e now w consumer ticket =
     (case oauth1HeaderNoToken e (js ''GET'') oauth1Url (consumer_key consumer)
             (consumer_secret consumer) [(js ''ticket'', ticket)] of
        None \<Rightarrow> (Inl URIError, w)
      | Some authHeader \<Rightarrow>
          (case encodeURIComponent ticket of
             Inl err \<Rightarrow> (Inl err, w)
           | Inr encodedTicket \<Rightarrow>
               let req = preauthorizedRequest authHeader encodedTicket; w1 = sent w req
               in (case fetch e req of
                     None \<Rightarrow> (Inl FetchRejected, w1)
                   | Some oauth1Res \<Rightarrow>
                       if \<not> ok oauth1Res
                       then (Inl (OAuth1ExchangeFailed (res_status oauth1Res)
                                    (res_text oauth1Res)), w1)
                       else
                         let oauthToken = form_get e (res_text oauth1Res) (js ''oauth_token'');
                             oauthTokenSecret =
                               form_get e (res_text oauth1Res) (js ''oauth_token_secret'')
                         in if absent oauthToken \<or> absent oauthTokenSecret
                            then (Inl NoOAuth1Token, w1)
                            else
                              (case setSecrets kc w1 TOOL
                                      [(js ''oauth1-token'', oauthToken),
                                       (js ''oauth1-secret'', oauthTokenSecret)] of
                                 (Inl err, w3) \<Rightarrow> (Inl err, w3)
                               | (Inr u, w3) \<Rightarrow>
                                   exchangeOAuth2 kc e now w3 consumer (the oauthToken)
                                     (the oauthTokenSecret)))))"

definition login ::
    "keychain_policy \<Rightarrow> 'a garmin_env_scheme \<Rightarrow> nat \<Rightarrow> world \<Rightarrow> jsstring \<Rightarrow> jsstring \<Rightarrow>
     (error + unit) \<times> world" where
  "login kc e now w email password =
     (case login_ticket kc e w email password of
        (Inl err, w3) \<Rightarrow> (Inl err, w3)
      | (Inr (consumer, ticket), w3) \<Rightarrow> login_tokens kc e now w3 consumer ticket)"

section \<open>The OAuth2 callback listener (\<open>oauthCallbackFlow\<close> of the mail tool)\<close>

text \<open>
  \<open>oauthCallbackFlow\<close> returns a promise and starts a server whose \<open>fetch\<close> handler settles
  it. A promise is settled once: \<open>resolve\<close> and \<open>reject\<close> act on a pending promise and
  do nothing on a settled one.
\<close>

datatype 'a promise = Pending | Resolved 'a | Rejected error

definition resolve :: "'a promise \<Rightarrow> 'a \<Rightarrow> 'a promise" where
  "resolve p v = (case p of Pending \<Rightarrow> Resolved v | Resolved u \<Rightarrow> p | Rejected err \<Rightarrow> p)"

definition reject :: "'a promise \<Rightarrow> error \<Rightarrow> 'a promise" where
  "reject p err = (case p of Pending \<Rightarrow> Rejected err | Resolved u \<Rightarrow> p | Rejected err' \<Rightarrow> p)"

text \<open>
  The value the flow resolves with, the three query parameters the handler reads
  (\<open>url.searchParams.get\<close>, \<open>None\<close> for \<open>null\<close>), and the four bodies it answers with.
\<close>

record callback =
  cb_code :: jsstring
  cb_redirectUri :: jsstring

record query =
  q_error :: "jsstring option"
  q_code :: "jsstring option"
  q_state :: "jsstring option"

datatype page =
    FailedPage jsstring
  | WaitingPage
  | MismatchPage
  | AuthenticatedPage

text \<open>
  The listener: the promise, the number of \<open>setTimeout(() => server.stop(), 100)\<close> timers
  that are set and have not fired, and whether the server has been stopped.
\<close>

record listener =
  outcome :: "callback promise"
  stopTimers :: nat
  stopped :: bool

definition listening :: listener where
  "listening = \<lparr>outcome = Pending, stopTimers = 0, stopped = False\<rparr>"

text \<open>
  The handler \<open>fetch(req)\<close>; \<open>state\<close> is the expected state, \<open>ruri\<close> the variable
  \<open>redirectUri\<close>, assigned before any request is served.
\<close>

definition callback_fetch :: "jsstring \<Rightarrow> jsstring \<Rightarrow> listener \<Rightarrow> query \<Rightarrow> listener \<times> page" where
  "callback_fetch state ruri l q =
     (if \<not> absent (q_error q) then
        (l\<lparr>outcome := reject (outcome l) (OAuth2Error (the (q_error q))),
           stopTimers := Suc (stopTimers l)\<rparr>,
         FailedPage (the (q_error q)))
      else if absent (q_code q) then (l, WaitingPage)
      else if q_state q \<noteq> Some state then
        (l\<lparr>outcome := reject (outcome l) StateMismatch, stopTimers := Suc (stopTimers l)\<rparr>,
         MismatchPage)
      else
        (l\<lparr>outcome := resolve (outcome l)
                          \<lparr>cb_code = the (q_code q), cb_redirectUri = ruri\<rparr>,
           stopTimers := Suc (stopTimers l)\<rparr>,
         AuthenticatedPage))"

text \<open>
  What can happen to the listener: a request arrives, one of the 100 ms timers fires,
  or the 120 s timer fires. A stopped server serves no request. The order and the
  number of these signals are not fixed by the code; a run takes any list of them.
\<close>

datatype signal = Request query | StopTimer | Timeout

definition step :: "jsstring \<Rightarrow> jsstring \<Rightarrow> listener \<Rightarrow> signal \<Rightarrow> listener \<times> page option" where
  "step state ruri l sig =
     (case sig of
        Request q \<Rightarrow>
          if stopped l then (l, None)
          else (fst (callback_fetch state ruri l q),
                Some (snd (callback_fetch state ruri l q)))
      | StopTimer \<Rightarrow>
          if stopTimers l = 0 then (l, None)
          else (l\<lparr>stopTimers := stopTimers l - 1, stopped := True\<rparr>, None)
      | Timeout \<Rightarrow>
          (l\<lparr>outcome := reject (outcome l) CallbackTimeout, stopped := True\<rparr>, None))"

fun run :: "jsstring \<Rightarrow> jsstring \<Rightarrow> listener \<Rightarrow> signal list \<Rightarrow> listener \<times> page option list" where
  "run state ruri l [] = (l, [])"
| "run state ruri l (sig # sigs) =
     (let (l1, p) = step state ruri l sig;
          (l2, ps) = run state ruri l1 sigs
      in (l2, p # ps))"

section \<open>Concrete inputs\<close>

text \<open>
  Stores, responses and environments at which the statements below are evaluated: a
  Keychain given by its entries, the entries of a tool \<open>cal\<close>, and a provider that
  answers every request with status 200 and a fixed JSON value.
\<close>

definition store_of :: "((jsstring \<times> jsstring) \<times> jsstring) list \<Rightarrow> world" where
  "store_of kvs = \<lparr>keychain = map_of kvs, events = []\<rparr>"

definition cal_store :: "(jsstring \<times> jsstring) list \<Rightarrow> world" where
  "cal_store kvs = store_of (map (\<lambda>(k, v). ((serviceName (js ''cal''), k), v)) kvs)"

definition cal_credentials :: "(jsstring \<times> jsstring) list" where
  "cal_credentials =
     [(js ''client-id'', js ''id''), (js ''client-secret'', js ''sec''),
      (js ''redirect-uri'', js ''http://localhost'')]"

definition cal_tokens :: "(jsstring \<times> jsstring) list" where
  "cal_tokens = [(js ''access-token'', js ''old''), (js ''refresh-token'', js ''r1'')]"

definition provider :: "json \<Rightarrow> env" where
  "provider data =
     \<lparr>fetch = (\<lambda>req. Some \<lparr>res_status = 200, res_setCookie = [], res_text = []\<rparr>),
      json_parse = (\<lambda>t. Some data)\<rparr>"

definition cal_config :: OAuth2Config where
  "cal_config = \<lparr>authorizeUrl = js ''https://a'', tokenUrl = js ''https://t'', scopes = []\<rparr>"

definition access_only :: json where
  "access_only = JObj [(js ''access_token'', JStr (js ''new'')), (js ''expires_in'', JNum 3600)]"

definition cal_expired :: world where
  "cal_expired = cal_store (cal_tokens @ (js ''expires-at'', js ''100'') # cal_credentials)"

definition cal_fresh :: world where
  "cal_fresh = cal_store (cal_tokens @ (js ''expires-at'', js ''2000'') # cal_credentials)"

definition cal_no_expiry :: world where
  "cal_no_expiry = cal_store (cal_tokens @ cal_credentials)"

definition full_response :: json where
  "full_response =
     JObj [(js ''access_token'', JStr (js ''new'')), (js ''refresh_token'', JStr (js ''r2'')),
           (js ''expires_in'', JNum 7200)]"

definition error_response :: json where
  "error_response =
     JObj [(js ''error'', JStr (js ''invalid_grant'')),
           (js ''error_description'', JStr (js ''Bad code''))]"

definition bearer_only :: json where
  "bearer_only = JObj [(js ''access_token'', JStr (js ''tok'')), (js ''token_type'', JStr (js ''Bearer''))]"

text \<open>
  A Keychain that takes every write, and one that refuses the writes to one account.
\<close>

definition unlocked :: keychain_policy where
  "unlocked = (\<lambda>w service account v. True)"

definition refusing :: "jsstring \<Rightarrow> keychain_policy" where
  "refusing a = (\<lambda>w service account v. account \<noteq> a)"

definition cal_no_credentials :: world where
  "cal_no_credentials = cal_store (cal_tokens @ [(js ''expires-at'', js ''100'')])"

definition cal_bad_expiry :: world where
  "cal_bad_expiry = cal_store (cal_tokens @ (js ''expires-at'', js ''soon'') # cal_credentials)"

text \<open>
  For the Garmin flow: a Keychain of entries of the tool \<open>garmin\<close>, and a site that
  answers every request with status 200, one cookie and a page holding a CSRF field and
  a ticket; the body of its answers parses to the JSON value passed in, or is no JSON.
\<close>

definition garmin_store :: "(jsstring \<times> jsstring) list \<Rightarrow> world" where
  "garmin_store kvs = store_of (map (\<lambda>(k, v). ((serviceName TOOL, k), v)) kvs)"

definition login_page :: jsstring where
  "login_page = csrfName @ js '' '' @ csrfValue @ js ''tok'' @ [0x22] @ js '' ticket=abc123''"

definition garmin_site :: "json option \<Rightarrow> garmin_env" where
  "garmin_site answer =
     \<lparr>fetch = (\<lambda>req. Some \<lparr>res_status = 200, res_setCookie = [js ''SESSION=1; Path=/''],
                             res_text = login_page\<rparr>),
      json_parse = (\<lambda>t. answer),
      form_get = (\<lambda>t k. if k = js ''oauth_token'' then Some (js ''o1'') else Some (js ''s1'')),
      arg_text = (\<lambda>v. None),
      sum_text = (\<lambda>now v. numToString NaN),
      oauth1Header = (\<lambda>m u ck cs t s. Some (js ''OAuth'')),
      oauth1HeaderNoToken = (\<lambda>m u ck cs extra. Some (js ''OAuth''))\<rparr>"



definition garmin_consumer :: "(jsstring \<times> jsstring) list" where
  "garmin_consumer = [(js ''consumer-key'', js ''ck''), (js ''consumer-secret'', js ''cs'')]"

definition garmin_entries :: "jsstring \<Rightarrow> jsstring \<Rightarrow> (jsstring \<times> jsstring) list" where
  "garmin_entries expires refreshExpires =
     [(js ''access-token'', js ''old''), (js ''expires-at'', expires),
      (js ''refresh-expires-at'', refreshExpires),
      (js ''oauth1-token'', js ''o1''), (js ''oauth1-secret'', js ''s1''),
      (js ''consumer-key'', js ''ck''), (js ''consumer-secret'', js ''cs'')]"

text \<open>For the listener: a callback that carries the expected state \<open>xyz\<close> and a code.\<close>

definition good_callback :: query where
  "good_callback = \<lparr>q_error = None, q_code = Some (js ''abc''), q_state = Some (js ''xyz'')\<rparr>"

definition forged_callback :: query where
  "forged_callback = \<lparr>q_error = None, q_code = Some (js ''abc''), q_state = Some (js ''bad'')\<rparr>"

section \<open>Statements\<close>

lemma js_length: "length (js s) = length s"
  by (simp add: js_def)

subsection \<open>Percent-encoding\<close>


lemma small_cases: "(d::nat) < 16 \<Longrightarrow> d = 0 \<or> d = 1 \<or> d = 2 \<or> d = 3 \<or> d = 4 \<or> d = 5 \<or> d = 6 \<or> d = 7 \<or> d = 8 \<or> d = 9 \<or> d = 10 \<or> d = 11 \<or> d = 12 \<or> d = 13 \<or> d = 14 \<or> d = 15"
  by arith

lemma hexDigit_not_subDelim: "d < 16 \<Longrightarrow> \<not> subDelim (hexDigit d)"
  by (drule small_cases) (auto simp: subDelim_def hexDigit_def)

lemma replaceAll_append: "replaceAll cls f (a @ b) = replaceAll cls f a @ replaceAll cls f b"
  by (simp add: replaceAll_def)

lemma replaceAll_Nil: "replaceAll cls f [] = []"
  by (simp add: replaceAll_def)

lemma replaceAll_pctOctet: "b < 256 \<Longrightarrow> replaceAll subDelim f (pctOctet b) = pctOctet b"
proof -
  assume b: "b < 256"
  then have "b div 16 < 16" "b mod 16 < 16" by auto
  then have "\<not> subDelim (hexDigit (b div 16))" "\<not> subDelim (hexDigit (b mod 16))"
    by (simp_all add: hexDigit_not_subDelim)
  moreover have "\<not> subDelim 0x25" by (simp add: subDelim_def)
  ultimately show ?thesis by (simp add: replaceAll_def pctOctet_def)
qed

lemma utf8_octets: "cp < 0x110000 \<Longrightarrow> b \<in> set (utf8 cp) \<Longrightarrow> b < 256"
  by (auto simp: utf8_def split: if_splits)

lemma replaceAll_pctCodePoint:
  assumes "cp < 0x110000"
  shows "replaceAll subDelim f (pctCodePoint cp) = pctCodePoint cp"
proof -
  have "\<forall>b \<in> set bs. b < 256 \<Longrightarrow> replaceAll subDelim f (concat (map pctOctet bs)) = concat (map pctOctet bs)" for bs
    by (induction bs) (simp_all add: replaceAll_Nil replaceAll_append replaceAll_pctOctet)
  then show ?thesis using assms utf8_octets by (simp add: pctCodePoint_def)
qed

lemma pairCodePoint_bound:
  "isLeadSurrogate c \<Longrightarrow> isTrailSurrogate d \<Longrightarrow> 0x10000 \<le> pairCodePoint c d \<and> pairCodePoint c d < 0x110000"
  apply (simp add: isLeadSurrogate_def isTrailSurrogate_def pairCodePoint_def word_le_nat_alt)
  apply arith
  done

lemma unat_bound16: "unat (c::jschar) < 0x110000"
  using unsigned_less [of c, where 'a = nat] by simp


lemma toString16_subDelim:
  "subDelim c \<Longrightarrow> 0x25 # toUpperCase (toString16 (unat c)) = pctCodePoint (unat c)"
  unfolding subDelim_def
  by (elim disjE) (simp_all add: toString16.simps toUpperCase_def hexDigitLower_def
      pctCodePoint_def utf8_def pctOctet_def hexDigit_def)

lemma uriUnescaped_ascii: "uriUnescaped c \<Longrightarrow> unat c < 0x80"
  by (auto simp: uriUnescaped_def isAlpha_def isDigit_def word_le_nat_alt)

lemma uriUnescaped_not_surrogate:
  "uriUnescaped c \<Longrightarrow> \<not> isLeadSurrogate c \<and> \<not> isTrailSurrogate c"
  by (drule uriUnescaped_ascii) (auto simp: isLeadSurrogate_def isTrailSurrogate_def word_le_nat_alt)

lemma uriUnescaped_split: "uriUnescaped c \<longleftrightarrow> unreserved c \<or> subDelim c"
  by (auto simp: uriUnescaped_def unreserved_def subDelim_def)

lemma subDelim_not_unreserved: "subDelim c \<Longrightarrow> \<not> unreserved c"
  by (auto simp: unreserved_def subDelim_def isAlpha_def isDigit_def)

lemma replace_unescaped:
  assumes "uriUnescaped c"
  shows "replaceAll subDelim (\<lambda>c. 0x25 # toUpperCase (toString16 (unat c))) [c] = rfc3986_escape (unat c)"
proof (cases "subDelim c")
  case True
  then show ?thesis
    using subDelim_not_unreserved [OF True]
    by (simp add: replaceAll_def rfc3986_escape_def toString16_subDelim)
next
  case False
  with assms have "unreserved c" by (simp add: uriUnescaped_split)
  with False uriUnescaped_ascii [OF assms] show ?thesis
    by (simp add: replaceAll_def rfc3986_escape_def)
qed

lemma escape_escaped:
  "\<not> uriUnescaped c \<Longrightarrow> rfc3986_escape (unat c) = pctCodePoint (unat c)"
  by (simp add: rfc3986_escape_def uriUnescaped_split)

lemma escape_pair:
  "isLeadSurrogate c \<Longrightarrow> isTrailSurrogate d \<Longrightarrow>
   rfc3986_escape (pairCodePoint c d) = pctCodePoint (pairCodePoint c d)"
  using pairCodePoint_bound [of c d] by (simp add: rfc3986_escape_def)

lemma esc_result_prepend: "esc_result (prepend p r) = prepend (sub_esc p) (esc_result r)"
  by (cases r) (simp_all add: esc_result_def prepend_def sub_esc_def replaceAll_append)

lemma spec_result_Cons:
  "spec_result (map_option ((#) cp) r) = prepend (rfc3986_escape cp) (spec_result r)"
  by (cases r) (simp_all add: spec_result_def prepend_def rfc3986_encode_def)

lemma percentEncode_char:
  "esc_result (encodeURIComponent s) = spec_result (codePoints s)"
proof (induction s rule: encodeURIComponent.induct)
  case 1
  show ?case by (simp add: esc_result_def spec_result_def sub_esc_def replaceAll_Nil rfc3986_encode_def)
next
  case (2 c cs)
  show ?case
  proof (cases "uriUnescaped c")
    case True
    have "esc_result (encodeURIComponent (c # cs)) = prepend (sub_esc [c]) (esc_result (encodeURIComponent cs))"
      using True by (simp add: esc_result_prepend)
    also have "\<dots> = prepend (rfc3986_escape (unat c)) (spec_result (codePoints cs))"
      using 2(1) [OF True] replace_unescaped [OF True] by (simp add: sub_esc_def)
    also have "\<dots> = spec_result (codePoints (c # cs))"
      using uriUnescaped_not_surrogate [OF True] by (simp add: spec_result_Cons)
    finally show ?thesis .
  next
    case False
    show ?thesis
    proof (cases "isLeadSurrogate c")
      case lead: True
      show ?thesis
      proof (cases cs)
        case Nil
        with False lead show ?thesis by (simp add: esc_result_def spec_result_def)
      next
        case (Cons d ds)
        show ?thesis
        proof (cases "isTrailSurrogate d")
          case True
          have b: "pairCodePoint c d < 0x110000" using pairCodePoint_bound [OF lead True] by simp
          have "esc_result (encodeURIComponent (c # cs)) =
                  prepend (sub_esc (pctCodePoint (pairCodePoint c d))) (esc_result (encodeURIComponent ds))"
            using False lead Cons True by (simp add: esc_result_prepend)
          also have "\<dots> = prepend (rfc3986_escape (pairCodePoint c d)) (spec_result (codePoints ds))"
            using 2(2) [OF False lead Cons True] escape_pair [OF lead True] replaceAll_pctCodePoint [OF b]
            by (simp add: sub_esc_def)
          also have "\<dots> = spec_result (codePoints (c # cs))"
            using lead Cons True by (simp add: spec_result_Cons)
          finally show ?thesis .
        next
          case False
          with \<open>\<not> uriUnescaped c\<close> lead Cons show ?thesis
            by (simp add: esc_result_def spec_result_def)
        qed
      qed
    next
      case nolead: False
      show ?thesis
      proof (cases "isTrailSurrogate c")
        case True
        with False nolead show ?thesis by (simp add: esc_result_def spec_result_def)
      next
        case notrail: False
        have "esc_result (encodeURIComponent (c # cs)) =
                prepend (sub_esc (pctCodePoint (unat c))) (esc_result (encodeURIComponent cs))"
          using False nolead notrail by (simp add: esc_result_prepend)
        also have "\<dots> = prepend (rfc3986_escape (unat c)) (spec_result (codePoints cs))"
          using 2(3) [OF False nolead notrail] escape_escaped [OF False]
            replaceAll_pctCodePoint [OF unat_bound16 [of c]]
          by (simp add: sub_esc_def)
        also have "\<dots> = spec_result (codePoints (c # cs))"
          using nolead notrail by (simp add: spec_result_Cons)
        finally show ?thesis .
      qed
    qed
  qed
qed

text \<open>
  Claim C8, as the code has it. \<open>percentEncode\<close> throws \<open>URIError\<close> exactly on the strings
  with an unpaired surrogate. On every other string it returns the RFC 3986 encoding:
  ASCII letters, digits and \<open>- . _ ~\<close> are copied, and every other code point, among them
  \<open>! ' ( ) *\<close> and the space, is replaced by the percent-escapes of its UTF-8 octets
  (\<open>!\<close> gives \<open>%21\<close>, a space gives \<open>%20\<close>).
\<close>

theorem percentEncode_rfc3986:
  "percentEncode s =
     (case codePoints s of None \<Rightarrow> Inl URIError | Some cps \<Rightarrow> Inr (rfc3986_encode cps))"
  using percentEncode_char [of s]
  unfolding percentEncode_def esc_result_def spec_result_def sub_esc_def .

text \<open>
  The claim as written covers every input string; the string made of the single code
  unit \<open>0xD800\<close> is not encoded at all.
\<close>

theorem percentEncode_lone_surrogate_counterexample:
  "percentEncode [0xD800] = Inl URIError"
  by (simp add: percentEncode_def uriUnescaped_def isAlpha_def isDigit_def isLeadSurrogate_def)

lemma percentEncode_examples:
  "percentEncode (js ''!'') = Inr (js ''%21'')"
  "percentEncode (js '' '') = Inr (js ''%20'')"
  "percentEncode (js ''a-b.c_d~e'') = Inr (js ''a-b.c_d~e'')"
  by (simp_all add: percentEncode_def uriUnescaped_def prepend_def replaceAll_def subDelim_def
      toString16.simps toUpperCase_def hexDigitLower_def isAlpha_def isDigit_def
      isLeadSurrogate_def isTrailSurrogate_def pctCodePoint_def utf8_def pctOctet_def
      hexDigit_def js_def)

subsection \<open>The sign-in response\<close>


lemma str_includes_iff: "str_includes s p \<longleftrightarrow> (\<exists>u v. s = u @ p @ v)"
proof (induction s)
  case Nil
  show ?case by auto
next
  case (Cons c cs)
  show ?case
  proof
    assume "str_includes (c # cs) p"
    then consider "prefix p (c # cs)" | "str_includes cs p" by auto
    then show "\<exists>u v. c # cs = u @ p @ v"
    proof cases
      case 1
      then obtain v where "c # cs = p @ v" by (auto simp: prefix_def)
      then have "c # cs = [] @ p @ v" by simp
      then show ?thesis by blast
    next
      case 2
      with Cons obtain u v where "cs = u @ p @ v" by auto
      then have "c # cs = (c # u) @ p @ v" by simp
      then show ?thesis by blast
    qed
  next
    assume "\<exists>u v. c # cs = u @ p @ v"
    then obtain u v where uv: "c # cs = u @ p @ v" by auto
    show "str_includes (c # cs) p"
    proof (cases u)
      case Nil
      with uv have "prefix p (c # cs)" by (auto simp: prefix_def)
      then show ?thesis by simp
    next
      case (Cons a u')
      with uv have "cs = u' @ p @ v" by simp
      then have "str_includes cs p" using Cons.IH by auto
      then show ?thesis by simp
    qed
  qed
qed

lemma drop_ticket: "drop 7 (js ''ticket='' @ r) = r"
  by (simp add: js_def)

lemma ticketAt_iff:
  "ticketAt s \<longleftrightarrow> (\<exists>c w. s = js ''ticket='' @ c # w \<and> ticketChar c)"
proof
  assume "ticketAt s"
  then obtain r where r: "s = js ''ticket='' @ r" and t: "takeWhile ticketChar (drop 7 s) \<noteq> []"
    by (auto simp: ticketAt_def prefix_def)
  from r have "drop 7 s = r" by (simp only: drop_ticket)
  with t obtain c w where "r = c # w" "ticketChar c"
    by (cases r) (auto split: if_splits)
  with r show "\<exists>c w. s = js ''ticket='' @ c # w \<and> ticketChar c" by blast
next
  assume "\<exists>c w. s = js ''ticket='' @ c # w \<and> ticketChar c"
  then obtain c w where s: "s = js ''ticket='' @ c # w" and c: "ticketChar c" by blast
  from s have "drop 7 s = c # w" by (simp only: drop_ticket)
  with c s show "ticketAt s" by (simp add: ticketAt_def)
qed

lemma matchTicket_skip:
  "(\<forall>k<length u. \<not> ticketAt (drop k (u @ s))) \<Longrightarrow> matchTicket (u @ s) = matchTicket s"
proof (induction u)
  case Nil
  show ?case by simp
next
  case (Cons a u)
  from Cons.prems have "\<not> ticketAt (drop 0 ((a # u) @ s))" by blast
  then have h: "\<not> ticketAt (a # u @ s)" by simp
  have "\<forall>k<length u. \<not> ticketAt (drop k (u @ s))"
  proof (intro allI impI)
    fix k assume "k < length u"
    then have "Suc k < length (a # u)" by simp
    with Cons.prems have "\<not> ticketAt (drop (Suc k) ((a # u) @ s))" by blast
    then show "\<not> ticketAt (drop k (u @ s))" by simp
  qed
  with Cons.IH h show ?case by simp
qed

lemma matchTicket_here:
  "ticketAt s \<Longrightarrow> matchTicket s = Some (takeWhile ticketChar (drop 7 s))"
  by (cases s) (auto simp: ticketAt_def)

lemma matchTicket_None_iff:
  "matchTicket s = None \<longleftrightarrow> (\<forall>u r. s = u @ r \<longrightarrow> \<not> ticketAt r)"
proof (induction s)
  case Nil
  show ?case by (simp add: ticketAt_def)
next
  case (Cons c cs)
  show ?case
  proof
    assume a: "matchTicket (c # cs) = None"
    then have h: "\<not> ticketAt (c # cs)" and t: "matchTicket cs = None" by (auto split: if_splits)
    show "\<forall>u r. c # cs = u @ r \<longrightarrow> \<not> ticketAt r"
    proof (intro allI impI)
      fix u r assume ur: "c # cs = u @ r"
      show "\<not> ticketAt r"
      proof (cases u)
        case Nil
        with ur h show ?thesis by simp
      next
        case (Cons a u')
        with ur have "cs = u' @ r" by simp
        with t Cons.IH show ?thesis by blast
      qed
    qed
  next
    assume a: "\<forall>u r. c # cs = u @ r \<longrightarrow> \<not> ticketAt r"
    have "c # cs = [] @ (c # cs)" by simp
    with a have h: "\<not> ticketAt (c # cs)" by blast
    have "\<forall>u r. cs = u @ r \<longrightarrow> \<not> ticketAt r"
    proof (intro allI impI)
      fix u r assume "cs = u @ r"
      then have "c # cs = (c # u) @ r" by simp
      with a show "\<not> ticketAt r" by blast
    qed
    with Cons.IH h show "matchTicket (c # cs) = None" by simp
  qed
qed


lemma firstTicketD:
  assumes "firstTicket s t"
  obtains u v where "s = u @ js ''ticket='' @ t @ v" "t \<noteq> []" "\<forall>c \<in> set t. ticketChar c"
      "v = [] \<or> \<not> ticketChar (hd v)"
      "\<forall>u' c w. s = u' @ js ''ticket='' @ c # w \<and> ticketChar c \<longrightarrow> length u \<le> length u'"
proof -
  from assms have "\<exists>u v. s = u @ js ''ticket='' @ t @ v \<and> t \<noteq> [] \<and> (\<forall>c \<in> set t. ticketChar c) \<and>
        (v = [] \<or> \<not> ticketChar (hd v)) \<and>
        (\<forall>u' c w. s = u' @ js ''ticket='' @ c # w \<and> ticketChar c \<longrightarrow> length u \<le> length u')"
    by (simp only: firstTicket_def)
  then obtain u v where "s = u @ js ''ticket='' @ t @ v \<and> t \<noteq> [] \<and> (\<forall>c \<in> set t. ticketChar c) \<and>
        (v = [] \<or> \<not> ticketChar (hd v)) \<and>
        (\<forall>u' c w. s = u' @ js ''ticket='' @ c # w \<and> ticketChar c \<longrightarrow> length u \<le> length u')"
    by (elim exE)
  then show thesis using that [of u v] by (elim conjE)
qed

lemma ticketAt_firstTicket:
  assumes "ticketAt s"
  shows "firstTicket s (takeWhile ticketChar (drop 7 s))"
proof -
  let ?t = "takeWhile ticketChar (drop 7 s)"
  let ?v = "dropWhile ticketChar (drop 7 s)"
  from assms have ne: "?t \<noteq> []" by (simp add: ticketAt_def)
  from assms obtain r where r: "s = js ''ticket='' @ r" by (auto simp: ticketAt_def prefix_def)
  then have "drop 7 s = r" by (simp only: drop_ticket)
  then have "s = js ''ticket='' @ drop 7 s" using r by (simp only:)
  then have dec: "s = [] @ js ''ticket='' @ ?t @ ?v"
    by (simp only: takeWhile_dropWhile_id append_Nil)
  have all: "\<forall>c \<in> set ?t. ticketChar c" by (auto dest: set_takeWhileD)
  have stop: "?v = [] \<or> \<not> ticketChar (hd ?v)"
    using hd_dropWhile [of ticketChar "drop 7 s"] by blast
  have left: "\<forall>u' c w. s = u' @ js ''ticket='' @ c # w \<and> ticketChar c \<longrightarrow> length ([]::jsstring) \<le> length u'"
    by simp
  from dec ne all stop left show ?thesis unfolding firstTicket_def by blast
qed

lemma matchTicket_Some_firstTicket: "matchTicket s = Some t \<Longrightarrow> firstTicket s t"
proof (induction s)
  case Nil
  then show ?case by simp
next
  case (Cons c cs)
  show ?case
  proof (cases "ticketAt (c # cs)")
    case True
    with Cons.prems have "t = takeWhile ticketChar (drop 7 (c # cs))"
      by (simp only: matchTicket.simps if_True option.inject)
    with ticketAt_firstTicket [OF True] show ?thesis by (simp only:)
  next
    case False
    with Cons.prems have "matchTicket cs = Some t" by simp
    with Cons.IH have "firstTicket cs t" by simp
    then obtain u v where uv: "cs = u @ js ''ticket='' @ t @ v" "t \<noteq> []" "\<forall>c \<in> set t. ticketChar c"
      "v = [] \<or> \<not> ticketChar (hd v)"
      and left: "\<forall>u' c w. cs = u' @ js ''ticket='' @ c # w \<and> ticketChar c \<longrightarrow> length u \<le> length u'"
      by (rule firstTicketD)
    have left': "\<forall>u' d w. c # cs = u' @ js ''ticket='' @ d # w \<and> ticketChar d \<longrightarrow> length (c # u) \<le> length u'"
    proof (intro allI impI)
      fix u' d w assume a: "c # cs = u' @ js ''ticket='' @ d # w \<and> ticketChar d"
      show "length (c # u) \<le> length u'"
      proof (cases u')
        case Nil
        with a have "ticketAt (c # cs)" using ticketAt_iff [of "c # cs"] by auto
        with False show ?thesis by simp
      next
        case (Cons a' u'')
        with a have "cs = u'' @ js ''ticket='' @ d # w \<and> ticketChar d" by simp
        with left have "length u \<le> length u''" by blast
        with Cons show ?thesis by simp
      qed
    qed
    from uv(1) have "c # cs = (c # u) @ js ''ticket='' @ t @ v" by simp
    with uv(2-4) left' show ?thesis unfolding firstTicket_def by blast
  qed
qed

lemma ticketOccurs_iff: "ticketOccurs s \<longleftrightarrow> (\<exists>u r. s = u @ r \<and> ticketAt r)"
proof
  assume "ticketOccurs s"
  then obtain u c w where "s = u @ js ''ticket='' @ c # w" "ticketChar c"
    unfolding ticketOccurs_def by (elim exE conjE)
  moreover from this have "ticketAt (js ''ticket='' @ c # w)"
    unfolding ticketAt_iff by (intro exI conjI) (rule refl)
  ultimately show "\<exists>u r. s = u @ r \<and> ticketAt r" by (intro exI conjI)
next
  assume "\<exists>u r. s = u @ r \<and> ticketAt r"
  then obtain u r where s: "s = u @ r" and "ticketAt r" by (elim exE conjE)
  then obtain c w where r: "r = js ''ticket='' @ c # w" and c: "ticketChar c"
    unfolding ticketAt_iff by (elim exE conjE)
  from s r have "s = u @ js ''ticket='' @ c # w" by (simp only:)
  with c show "ticketOccurs s" unfolding ticketOccurs_def by (intro exI conjI)
qed

lemma ticketOccurs_matchTicket: "ticketOccurs s \<longleftrightarrow> matchTicket s \<noteq> None"
  unfolding ticketOccurs_iff matchTicket_None_iff by (simp only: not_all not_imp not_not)

lemma firstTicket_matchTicket: "firstTicket s t \<Longrightarrow> matchTicket s = Some t"
proof -
  assume "firstTicket s t"
  then obtain u v where uv: "s = u @ js ''ticket='' @ t @ v" "t \<noteq> []" "\<forall>c \<in> set t. ticketChar c"
      "v = [] \<or> \<not> ticketChar (hd v)"
      and left: "\<forall>u' c w. s = u' @ js ''ticket='' @ c # w \<and> ticketChar c \<longrightarrow> length u \<le> length u'"
    by (rule firstTicketD)
  let ?r = "js ''ticket='' @ t @ v"
  have tw: "takeWhile ticketChar (t @ v) = t"
    using uv(3,4) by (cases v) simp_all
  have d7: "drop 7 ?r = t @ v" by (simp only: drop_ticket)
  have pre: "prefix (js ''ticket='') ?r" by (rule prefixI) (rule refl)
  have "takeWhile ticketChar (drop 7 ?r) \<noteq> []" using uv(2) by (simp only: d7 tw simp_thms)
  with pre have here: "ticketAt ?r" unfolding ticketAt_def by (rule conjI)
  have "\<forall>k<length u. \<not> ticketAt (drop k (u @ ?r))"
  proof (intro allI impI notI)
    fix k assume k: "k < length u" and "ticketAt (drop k (u @ ?r))"
    then have "ticketAt (drop k s)" by (simp only: uv(1))
    then obtain c w where d: "drop k s = js ''ticket='' @ c # w" and c: "ticketChar c"
      using ticketAt_iff by blast
    have "take k s @ drop k s = s" by (rule append_take_drop_id)
    then have "take k s @ js ''ticket='' @ c # w = s" by (simp only: d)
    then have "s = take k s @ js ''ticket='' @ c # w" by (rule sym)
    with c left [rule_format, of "take k s" c w] have "length u \<le> length (take k s)"
      by (simp only: simp_thms)
    moreover have "length u \<le> length s" by (simp add: uv(1))
    ultimately show False using k by simp
  qed
  then have "matchTicket (u @ ?r) = matchTicket ?r" by (rule matchTicket_skip)
  also have "\<dots> = Some (takeWhile ticketChar (drop 7 ?r))" using here by (rule matchTicket_here)
  also have "\<dots> = Some t" using tw by (simp only: drop_ticket)
  finally show ?thesis by (simp only: uv(1))
qed

text \<open>
  Claim C4, as the code has it. A body in which \<open>locked\<close> occurs is \<open>AccountLocked\<close>,
  whatever else it holds. Otherwise a body in which the ticket expression matches is a
  success, with the ticket of the leftmost match, also when \<open>MFA\<close> occurs in it.
  Otherwise a body in which \<open>MFA\<close> occurs is \<open>MfaRequired\<close>, and any other body is
  \<open>LoginFailed\<close>.
\<close>

theorem login_outcome_classification:
  "(occurs (js ''locked'') body \<longrightarrow> login_outcome body = Inl AccountLocked) \<and>
   (\<not> occurs (js ''locked'') body \<and> firstTicket body t \<longrightarrow> login_outcome body = Inr t) \<and>
   (\<not> occurs (js ''locked'') body \<and> ticketOccurs body \<longrightarrow> (\<exists>t. firstTicket body t)) \<and>
   (\<not> occurs (js ''locked'') body \<and> \<not> ticketOccurs body \<and> occurs (js ''MFA'') body \<longrightarrow>
      login_outcome body = Inl MfaRequired) \<and>
   (\<not> occurs (js ''locked'') body \<and> \<not> ticketOccurs body \<and> \<not> occurs (js ''MFA'') body \<longrightarrow>
      login_outcome body = Inl LoginFailed)"
proof -
  have inc: "str_includes body p \<longleftrightarrow> occurs p body" for p
    by (simp add: str_includes_iff occurs_def)
  have none: "\<not> ticketOccurs body \<Longrightarrow> matchTicket body = None"
    by (simp add: ticketOccurs_matchTicket)
  have c1: "occurs (js ''locked'') body \<Longrightarrow> login_outcome body = Inl AccountLocked"
    unfolding login_outcome_def inc by (simp only: if_True)
  have c2: "\<not> occurs (js ''locked'') body \<Longrightarrow> firstTicket body t \<Longrightarrow> login_outcome body = Inr t"
    unfolding login_outcome_def inc by (simp only: if_False firstTicket_matchTicket option.case)
  have c3: "ticketOccurs body \<Longrightarrow> \<exists>t. firstTicket body t"
    using ticketOccurs_matchTicket [of body] matchTicket_Some_firstTicket [of body] by auto
  have c4: "\<not> occurs (js ''locked'') body \<Longrightarrow> \<not> ticketOccurs body \<Longrightarrow> occurs (js ''MFA'') body \<Longrightarrow>
      login_outcome body = Inl MfaRequired"
    using none by (simp add: login_outcome_def inc)
  have c5: "\<not> occurs (js ''locked'') body \<Longrightarrow> \<not> ticketOccurs body \<Longrightarrow> \<not> occurs (js ''MFA'') body \<Longrightarrow>
      login_outcome body = Inl LoginFailed"
    using none by (simp add: login_outcome_def inc)
  from c1 c2 c3 c4 c5 show ?thesis by blast
qed

lemma occurs_str_includes: "occurs p s \<longleftrightarrow> str_includes s p"
  by (simp only: occurs_def str_includes_iff)

theorem login_outcome_classification_witness:
  "occurs (js ''locked'') (js ''locked ticket=abc'') \<and>
   login_outcome (js ''locked ticket=abc'') = Inl AccountLocked \<and>
   \<not> occurs (js ''locked'') (js ''ticket=abc123&foo=bar MFA'') \<and>
   firstTicket (js ''ticket=abc123&foo=bar MFA'') (js ''abc123'') \<and>
   login_outcome (js ''ticket=abc123&foo=bar MFA'') = Inr (js ''abc123'') \<and>
   \<not> ticketOccurs (js ''MFA ticket=&'') \<and> occurs (js ''MFA'') (js ''MFA ticket=&'') \<and>
   login_outcome (js ''MFA ticket=&'') = Inl MfaRequired \<and>
   \<not> occurs (js ''MFA'') (js ''wrong'') \<and> login_outcome (js ''wrong'') = Inl LoginFailed"
proof -
  have l1: "occurs (js ''locked'') (js ''locked ticket=abc'')"
    by (simp add: occurs_str_includes js_def)
  have l2: "\<not> occurs (js ''locked'') (js ''ticket=abc123&foo=bar MFA'')"
    by (simp add: occurs_str_includes js_def)
  have "matchTicket (js ''ticket=abc123&foo=bar MFA'') = Some (js ''abc123'')"
    by (simp add: ticketAt_def ticketChar_def isWhiteSpace_def js_def)
  then have t2: "firstTicket (js ''ticket=abc123&foo=bar MFA'') (js ''abc123'')"
    by (rule matchTicket_Some_firstTicket)
  have l3: "\<not> occurs (js ''locked'') (js ''MFA ticket=&'')"
    by (simp add: occurs_str_includes js_def)
  have t3: "\<not> ticketOccurs (js ''MFA ticket=&'')"
    by (simp add: ticketOccurs_matchTicket ticketAt_def ticketChar_def js_def)
  have m3: "occurs (js ''MFA'') (js ''MFA ticket=&'')"
    by (simp add: occurs_str_includes js_def)
  have l4: "\<not> occurs (js ''locked'') (js ''wrong'')"
    by (simp add: occurs_str_includes js_def)
  have t4: "\<not> ticketOccurs (js ''wrong'')"
    by (simp add: ticketOccurs_matchTicket ticketAt_def js_def)
  have m4: "\<not> occurs (js ''MFA'') (js ''wrong'')"
    by (simp add: occurs_str_includes js_def)
  note c1 = login_outcome_classification [of "js ''locked ticket=abc''" "[]"]
  note c2 = login_outcome_classification [of "js ''ticket=abc123&foo=bar MFA''" "js ''abc123''"]
  note c3 = login_outcome_classification [of "js ''MFA ticket=&''" "[]"]
  note c4 = login_outcome_classification [of "js ''wrong''" "[]"]
  from c1 l1 have r1: "login_outcome (js ''locked ticket=abc'') = Inl AccountLocked"
    by (simp only: simp_thms)
  from c2 l2 t2 have r2: "login_outcome (js ''ticket=abc123&foo=bar MFA'') = Inr (js ''abc123'')"
    by (simp only: simp_thms)
  from c3 l3 t3 m3 have r3: "login_outcome (js ''MFA ticket=&'') = Inl MfaRequired"
    by (simp only: simp_thms)
  from c4 l4 t4 m4 have r4: "login_outcome (js ''wrong'') = Inl LoginFailed"
    by (simp only: simp_thms)
  from l1 r1 l2 t2 r2 t3 m3 r3 m4 r4 show ?thesis by (intro conjI)
qed

text \<open>
  The claim as written gives \<open>MfaRequired\<close> to every body with an MFA indicator; a body
  holding both \<open>MFA\<close> and a ticket is a success in the code.
\<close>

theorem login_outcome_mfa_counterexample:
  "str_includes (js ''MFA ticket=abc123'') (js ''MFA'') \<and>
   login_outcome (js ''MFA ticket=abc123'') = Inr (js ''abc123'')"
  by (simp add: login_outcome_def ticketAt_def ticketChar_def isWhiteSpace_def js_def)

lemma login_outcome_example:
  "login_outcome (js ''ticket=abc123&foo=bar'') = Inr (js ''abc123'')"
  by (simp add: login_outcome_def ticketAt_def ticketChar_def isWhiteSpace_def js_def)

subsection \<open>The OAuth2 client\<close>

lemma fetches_sent: "fetches (sent w r) = fetches w @ [r]"
  by (simp add: fetches_def sent_def)

lemma fetches_stored: "fetches (stored w t a v) = fetches w"
  by (simp add: fetches_def stored_def)

lemma fetches_setSecret: "fetches (snd (setSecret kc w t a v)) = fetches w"
  by (simp add: setSecret_def fetches_stored)

lemma fetches_setSecrets: "fetches (snd (setSecrets kc w t entries)) = fetches w"
proof (induction entries arbitrary: w)
  case Nil
  show ?case by simp
next
  case (Cons entry entries)
  obtain a arg where entry: "entry = (a, arg)" by (cases entry)
  show ?case
  proof (cases arg)
    case None
    with entry show ?thesis by simp
  next
    case (Some v)
    show ?thesis
    proof (cases "kc w (serviceName t) a v")
      case True
      with entry Some show ?thesis
        by (simp add: setSecret_def Cons.IH fetches_stored)
    next
      case False
      with entry Some show ?thesis by (simp add: setSecret_def)
    qed
  qed
qed

lemma setSecrets_accepts:
  "accepts_all kc w t entries \<Longrightarrow>
   setSecrets kc w t (map (\<lambda>(a, v). (a, Some v)) entries) = (Inr (), stored_all w t entries)"
proof (induction entries arbitrary: w)
  case Nil
  show ?case by simp
next
  case (Cons entry entries)
  obtain a v where entry: "entry = (a, v)" by (cases entry)
  from Cons.prems entry have k: "kc w (serviceName t) a v"
    and rest: "accepts_all kc (stored w t a v) t entries" by simp_all
  from Cons.IH [OF rest] entry k show ?case by (simp add: setSecret_def)
qed

lemma setSecrets_refused:
  "\<not> accepts_all kc w t entries \<Longrightarrow>
   \<exists>a. fst (setSecrets kc w t (map (\<lambda>(a, v). (a, Some v)) entries)) =
         Inl (KeychainWriteFailed (serviceName t) a)"
proof (induction entries arbitrary: w)
  case Nil
  then show ?case by simp
next
  case (Cons entry entries)
  obtain a v where entry: "entry = (a, v)" by (cases entry)
  show ?case
  proof (cases "kc w (serviceName t) a v")
    case True
    with Cons.prems entry have "\<not> accepts_all kc (stored w t a v) t entries" by simp
    from Cons.IH [OF this] entry True show ?thesis by (simp add: setSecret_def)
  next
    case False
    with entry show ?thesis by (simp add: setSecret_def)
  qed
qed

lemma saveTokens_accepts:
  assumes "accepts_all kc w tool
             [(js ''access-token'', accessToken tk), (js ''refresh-token'', refreshToken tk),
              (js ''expires-at'', numToString (expiresAt tk))]"
  shows "saveTokens kc w tool tk =
           (Inr (), stored_all w tool
              [(js ''access-token'', accessToken tk), (js ''refresh-token'', refreshToken tk),
               (js ''expires-at'', numToString (expiresAt tk))])"
  using setSecrets_accepts [OF assms] by (simp add: saveTokens_def)

lemma fetches_saveTokens: "fetches (snd (saveTokens kc w tool tk)) = fetches w"
  unfolding saveTokens_def by (rule fetches_setSecrets)

lemma keychain_sent: "keychain (sent w r) = keychain w"
  by (simp add: sent_def)

lemma getProp_JNull: "getProp data k = Some v \<Longrightarrow> data \<noteq> JNull"
  by (cases data) simp_all

lemma truthy_nonEmptyString: "nonEmptyString v \<Longrightarrow> truthy v"
  by (induction v rule: nonEmptyString.induct) simp_all

lemma parseTokenResponse_refresh:
  assumes "getProp data (js ''access_token'') = Some (JStr a)" "a \<noteq> []"
  shows "parseTokenResponse now data existing =
     (let refresh = (if nonEmptyString (getProp data (js ''refresh_token''))
                     then (case getProp data (js ''refresh_token'') of Some (JStr r) \<Rightarrow> Some r | _ \<Rightarrow> None)
                     else existing)
      in if absent refresh then Inl NoRefreshToken
         else Inr \<lparr>accessToken = a, refreshToken = the refresh,
                   expiresAt = Num (int now + expiresIn (getProp data (js ''expires_in'')) - 60)\<rparr>)"
proof -
  from assms(1) have nn: "data \<noteq> JNull" by (rule getProp_JNull)
  show ?thesis
    using assms nn
    by (cases "getProp data (js ''refresh_token'')" rule: nonEmptyString.cases)
       (simp_all add: parseTokenResponse_def Let_def)
qed

text \<open>
  Claim C9. When the token response carries a usable \<open>access_token\<close> (a string that is
  not empty) and no usable \<open>refresh_token\<close> (none, or one that is not a string or is
  empty), \<open>exchangeCode\<close> throws the error "No refresh token in response and no existing
  token to preserve": the code exchange passes no earlier refresh token on, so such a
  response never gives a token object.
\<close>

theorem exchangeCode_no_refresh_token:
  assumes "fetch e (exchangeRequest config cid csec ruri code) = Some res"
    and "json_parse e (res_text res) = Some data"
    and "getProp data (js ''access_token'') = Some (JStr a)" and "a \<noteq> []"
    and "\<not> nonEmptyString (getProp data (js ''refresh_token''))"
  shows "fst (exchangeCode e now w config cid csec ruri code) = Inl NoRefreshToken"
proof -
  from assms(3) have nn: "data \<noteq> JNull" by (rule getProp_JNull)
  have p: "parseTokenResponse now data None = Inl NoRefreshToken"
    using assms(5) by (simp add: parseTokenResponse_refresh [OF assms(3,4)] absent_def)
  show ?thesis
    using assms(1,2,3,4) nn p by (simp add: exchangeCode_def Let_def)
qed

lemma refreshAccessToken_Inr_nonempty:
  "fst (refreshAccessToken e now w config cid csec rtok) = Inr t \<Longrightarrow> refreshToken t \<noteq> []"
  by (auto simp: refreshAccessToken_def parseTokenResponse_def Let_def absent_def
      split: option.splits if_splits json.splits)

text \<open>
  Claim C3. Let a refresh response carry a usable \<open>access_token\<close> and no usable
  \<open>refresh_token\<close>. If the refresh was made with a refresh token that is not empty, the
  token object that results has that same refresh token; if there is none to fall back
  on, the call fails with the error \<open>NoRefreshToken\<close>. And whatever the response, a token
  object returned by \<open>refreshAccessToken\<close> has a refresh token that is not empty.
\<close>

theorem refreshAccessToken_preserves_refresh_token:
  "(fetch e (refreshRequest config cid csec rtok) = Some res \<and>
    json_parse e (res_text res) = Some data \<and>
    getProp data (js ''access_token'') = Some (JStr a) \<and> a \<noteq> [] \<and>
    \<not> nonEmptyString (getProp data (js ''refresh_token'')) \<longrightarrow>
      (rtok \<noteq> [] \<longrightarrow>
         (\<exists>t. fst (refreshAccessToken e now w config cid csec rtok) = Inr t \<and>
              refreshToken t = rtok \<and> accessToken t = a)) \<and>
      (rtok = [] \<longrightarrow> fst (refreshAccessToken e now w config cid csec rtok) = Inl NoRefreshToken)) \<and>
   (fst (refreshAccessToken e now w config cid csec rtok) = Inr t \<longrightarrow> refreshToken t \<noteq> [])"
proof (intro conjI impI)
  assume h: "fetch e (refreshRequest config cid csec rtok) = Some res \<and>
    json_parse e (res_text res) = Some data \<and>
    getProp data (js ''access_token'') = Some (JStr a) \<and> a \<noteq> [] \<and>
    \<not> nonEmptyString (getProp data (js ''refresh_token''))"
  then have a: "getProp data (js ''access_token'') = Some (JStr a)" "a \<noteq> []" by simp_all
  from a(1) have nn: "data \<noteq> JNull" by (rule getProp_JNull)
  have r: "fst (refreshAccessToken e now w config cid csec rtok) = parseTokenResponse now data (Some rtok)"
    using h nn by (simp add: refreshAccessToken_def Let_def)
  {
    assume "rtok \<noteq> []"
    with h show "\<exists>t. fst (refreshAccessToken e now w config cid csec rtok) = Inr t \<and>
              refreshToken t = rtok \<and> accessToken t = a"
      by (simp add: r parseTokenResponse_refresh [OF a] absent_def)
  }
  {
    assume "rtok = []"
    with h have "parseTokenResponse now data (Some rtok) = Inl NoRefreshToken"
      by (simp add: parseTokenResponse_refresh [OF a] absent_def)
    with r show "fst (refreshAccessToken e now w config cid csec rtok) = Inl NoRefreshToken"
      by (simp only:)
  }
next
  assume "fst (refreshAccessToken e now w config cid csec rtok) = Inr t"
  then show "refreshToken t \<noteq> []" by (rule refreshAccessToken_Inr_nonempty)
qed

lemma expiresIn_cases:
  "expiresIn (Some (JNum n)) = n"
  "expiresIn None = 3600"
  "expiresIn (Some JNull) = 3600"
  "expiresIn (Some (JBool b)) = 3600"
  "expiresIn (Some (JArr xs)) = 3600"
  "expiresIn (Some (JObj kvs)) = 3600"
  "parseInt s = NaN \<Longrightarrow> expiresIn (Some (JStr s)) = 3600"
  "parseInt s = Num k \<Longrightarrow> k \<noteq> 0 \<Longrightarrow> expiresIn (Some (JStr s)) = k"
  by (simp_all add: expiresIn_def)

lemma errorField_cases:
  "getProp data (js ''error_description'') = Some v \<Longrightarrow> v \<noteq> JNull \<Longrightarrow> errorField data = v"
  "getProp data (js ''error_description'') = None \<or> getProp data (js ''error_description'') = Some JNull \<Longrightarrow>
     getProp data (js ''error'') = Some v \<Longrightarrow> v \<noteq> JNull \<Longrightarrow> errorField data = v"
  "getProp data (js ''error_description'') = None \<or> getProp data (js ''error_description'') = Some JNull \<Longrightarrow>
     getProp data (js ''error'') = None \<or> getProp data (js ''error'') = Some JNull \<Longrightarrow>
     errorField data = JStr (js ''unknown'')"
  by (auto simp: errorField_def coalesce_def)

lemma exchangeCode_parse:
  assumes "fetch e (exchangeRequest config cid csec ruri code) = Some res"
    and "json_parse e (res_text res) = Some data" and "data \<noteq> JNull"
  shows "fst (exchangeCode e now w config cid csec ruri code) =
     (if \<not> truthy (getProp data (js ''access_token'')) then Inl (TokenExchangeFailed (errorField data))
      else parseTokenResponse now data None)"
  using assms by (simp add: exchangeCode_def Let_def)

lemma parseTokenResponse_invalid:
  "data \<noteq> JNull \<Longrightarrow> \<not> nonEmptyString (getProp data (js ''access_token'')) \<Longrightarrow>
   parseTokenResponse now data existing = Inl InvalidAccessToken"
  by (cases "getProp data (js ''access_token'')" rule: nonEmptyString.cases)
     (simp_all add: parseTokenResponse_def)

lemma nonEmptyStringD: "nonEmptyString v \<Longrightarrow> \<exists>a. v = Some (JStr a) \<and> a \<noteq> []"
  by (cases v rule: nonEmptyString.cases) simp_all

lemma parseTokenResponse_no_exchange_error:
  "data \<noteq> JNull \<Longrightarrow> parseTokenResponse now data None \<noteq> Inl (TokenExchangeFailed v)"
proof (cases "nonEmptyString (getProp data (js ''access_token''))")
  case False
  assume "data \<noteq> JNull"
  from parseTokenResponse_invalid [OF this False] show ?thesis by simp
next
  case True
  then obtain a where a: "getProp data (js ''access_token'') = Some (JStr a)" "a \<noteq> []"
    using nonEmptyStringD by blast
  show ?thesis by (simp add: parseTokenResponse_refresh [OF a] Let_def)
qed

text \<open>
  Claim C2, as the code has it. On a response that parses to a JSON value other than
  \<open>null\<close>, \<open>exchangeCode\<close> has four outcomes. It fails with \<open>TokenExchangeFailed\<close>
  exactly when \<open>access_token\<close> is missing or falsy, and the error then carries the value
  of \<open>error_description\<close> when that field is there and not \<open>null\<close>, else the value
  of \<open>error\<close> when that field is there and not \<open>null\<close>, else the text "unknown". It
  fails with \<open>InvalidAccessToken\<close> when \<open>access_token\<close> is truthy and not a string, and
  with \<open>NoRefreshToken\<close> when \<open>access_token\<close> is a string that is not empty and
  \<open>refresh_token\<close> is not. It returns a token object exactly when both are strings that
  are not empty, and then \<open>expiresAt\<close> is \<open>now + n - 60\<close> when \<open>expires_in\<close> is the
  number \<open>n\<close>; \<open>now + k - 60\<close> when \<open>expires_in\<close> is a string from which \<open>parseInt\<close>
  reads a number \<open>k\<close> other than 0; and \<open>now + 3600 - 60\<close> when \<open>expires_in\<close> is
  missing, \<open>null\<close>, a boolean, an array, an object, or a string on which \<open>parseInt\<close>
  gives \<open>NaN\<close>.
\<close>

theorem exchangeCode_outcomes:
  assumes "fetch e (exchangeRequest config cid csec ruri code) = Some res"
    and "json_parse e (res_text res) = Some data" and "data \<noteq> JNull"
  shows
   "((\<exists>v. fst (exchangeCode e now w config cid csec ruri code) = Inl (TokenExchangeFailed v)) \<longleftrightarrow>
       \<not> truthy (getProp data (js ''access_token''))) \<and>
    (\<not> truthy (getProp data (js ''access_token'')) \<and>
     getProp data (js ''error_description'') = Some v \<and> v \<noteq> JNull \<longrightarrow>
       fst (exchangeCode e now w config cid csec ruri code) = Inl (TokenExchangeFailed v)) \<and>
    (\<not> truthy (getProp data (js ''access_token'')) \<and>
     (getProp data (js ''error_description'') = None \<or>
      getProp data (js ''error_description'') = Some JNull) \<and>
     getProp data (js ''error'') = Some v \<and> v \<noteq> JNull \<longrightarrow>
       fst (exchangeCode e now w config cid csec ruri code) = Inl (TokenExchangeFailed v)) \<and>
    (\<not> truthy (getProp data (js ''access_token'')) \<and>
     (getProp data (js ''error_description'') = None \<or>
      getProp data (js ''error_description'') = Some JNull) \<and>
     (getProp data (js ''error'') = None \<or> getProp data (js ''error'') = Some JNull) \<longrightarrow>
       fst (exchangeCode e now w config cid csec ruri code) =
         Inl (TokenExchangeFailed (JStr (js ''unknown'')))) \<and>
    (truthy (getProp data (js ''access_token'')) \<and>
     \<not> nonEmptyString (getProp data (js ''access_token'')) \<longrightarrow>
       fst (exchangeCode e now w config cid csec ruri code) = Inl InvalidAccessToken) \<and>
    (nonEmptyString (getProp data (js ''access_token'')) \<and>
     \<not> nonEmptyString (getProp data (js ''refresh_token'')) \<longrightarrow>
       fst (exchangeCode e now w config cid csec ruri code) = Inl NoRefreshToken) \<and>
    ((\<exists>t. fst (exchangeCode e now w config cid csec ruri code) = Inr t) \<longleftrightarrow>
       nonEmptyString (getProp data (js ''access_token'')) \<and>
       nonEmptyString (getProp data (js ''refresh_token''))) \<and>
    (getProp data (js ''access_token'') = Some (JStr a) \<and> a \<noteq> [] \<and>
     getProp data (js ''refresh_token'') = Some (JStr r) \<and> r \<noteq> [] \<and>
     getProp data (js ''expires_in'') = Some (JNum n) \<longrightarrow>
       fst (exchangeCode e now w config cid csec ruri code) =
         Inr \<lparr>accessToken = a, refreshToken = r, expiresAt = Num (int now + n - 60)\<rparr>) \<and>
    (getProp data (js ''access_token'') = Some (JStr a) \<and> a \<noteq> [] \<and>
     getProp data (js ''refresh_token'') = Some (JStr r) \<and> r \<noteq> [] \<and>
     getProp data (js ''expires_in'') = Some (JStr s) \<and> parseInt s = Num k \<and> k \<noteq> 0 \<longrightarrow>
       fst (exchangeCode e now w config cid csec ruri code) =
         Inr \<lparr>accessToken = a, refreshToken = r, expiresAt = Num (int now + k - 60)\<rparr>) \<and>
    (getProp data (js ''access_token'') = Some (JStr a) \<and> a \<noteq> [] \<and>
     getProp data (js ''refresh_token'') = Some (JStr r) \<and> r \<noteq> [] \<and>
     (getProp data (js ''expires_in'') = None \<or>
      getProp data (js ''expires_in'') = Some JNull \<or>
      getProp data (js ''expires_in'') = Some (JBool b) \<or>
      getProp data (js ''expires_in'') = Some (JArr xs) \<or>
      getProp data (js ''expires_in'') = Some (JObj kvs) \<or>
      getProp data (js ''expires_in'') = Some (JStr s) \<and> parseInt s = NaN) \<longrightarrow>
       fst (exchangeCode e now w config cid csec ruri code) =
         Inr \<lparr>accessToken = a, refreshToken = r, expiresAt = Num (int now + 3600 - 60)\<rparr>)"
proof -
  let ?X = "fst (exchangeCode e now w config cid csec ruri code)"
  let ?A = "getProp data (js ''access_token'')"
  let ?R = "getProp data (js ''refresh_token'')"
  let ?E = "getProp data (js ''expires_in'')"
  note p = exchangeCode_parse [OF assms, of now w]
  have c1: "\<not> truthy ?A \<Longrightarrow> ?X = Inl (TokenExchangeFailed (errorField data))"
    by (simp add: p)
  have c2: "truthy ?A \<Longrightarrow> \<not> nonEmptyString ?A \<Longrightarrow> ?X = Inl InvalidAccessToken"
    using assms(3) by (simp add: p parseTokenResponse_invalid)
  have c3: "nonEmptyString ?A \<Longrightarrow> \<not> nonEmptyString ?R \<Longrightarrow> ?X = Inl NoRefreshToken"
  proof -
    assume n: "nonEmptyString ?A" and m: "\<not> nonEmptyString ?R"
    from n obtain a' where a': "?A = Some (JStr a')" "a' \<noteq> []"
      using nonEmptyStringD by blast
    from m show ?thesis
      using truthy_nonEmptyString [OF n]
      by (simp add: p parseTokenResponse_refresh [OF a'] absent_def)
  qed
  have c4: "?X = Inr \<lparr>accessToken = a', refreshToken = r',
              expiresAt = Num (int now + expiresIn ?E - 60)\<rparr>"
    if a: "?A = Some (JStr a')" "a' \<noteq> []" and r: "?R = Some (JStr r')" "r' \<noteq> []" for a' r'
    using a r by (simp add: p parseTokenResponse_refresh [OF a] absent_def)
  have i1: "(\<exists>v. ?X = Inl (TokenExchangeFailed v)) \<longleftrightarrow> \<not> truthy ?A"
  proof
    assume x: "\<exists>v. ?X = Inl (TokenExchangeFailed v)"
    show "\<not> truthy ?A"
    proof
      assume "truthy ?A"
      then have "?X = parseTokenResponse now data None" by (simp add: p)
      with x parseTokenResponse_no_exchange_error [OF assms(3), of now] show False by auto
    qed
  next
    assume "\<not> truthy ?A"
    from c1 [OF this] show "\<exists>v. ?X = Inl (TokenExchangeFailed v)" by (rule exI)
  qed
  have i2: "(\<exists>t. ?X = Inr t) \<longleftrightarrow> nonEmptyString ?A \<and> nonEmptyString ?R"
  proof
    assume x: "\<exists>t. ?X = Inr t"
    have na: "nonEmptyString ?A"
    proof (rule ccontr)
      assume n: "\<not> nonEmptyString ?A"
      show False
      proof (cases "truthy ?A")
        case True
        from c2 [OF True n] x show False by simp
      next
        case False
        from c1 [OF False] x show False by simp
      qed
    qed
    have nr: "nonEmptyString ?R"
    proof (rule ccontr)
      assume "\<not> nonEmptyString ?R"
      from c3 [OF na this] x show False by simp
    qed
    from na nr show "nonEmptyString ?A \<and> nonEmptyString ?R" by (rule conjI)
  next
    assume n: "nonEmptyString ?A \<and> nonEmptyString ?R"
    then obtain a' r' where "?A = Some (JStr a')" "a' \<noteq> []" "?R = Some (JStr r')" "r' \<noteq> []"
      using nonEmptyStringD by blast
    from c4 [OF this] show "\<exists>t. ?X = Inr t" by (rule exI)
  qed
  have e1: "\<not> truthy ?A \<and> getProp data (js ''error_description'') = Some v \<and> v \<noteq> JNull \<Longrightarrow>
       ?X = Inl (TokenExchangeFailed v)"
    using c1 errorField_cases(1) [of data v] by simp
  have e2: "\<not> truthy ?A \<and>
     (getProp data (js ''error_description'') = None \<or>
      getProp data (js ''error_description'') = Some JNull) \<and>
     getProp data (js ''error'') = Some v \<and> v \<noteq> JNull \<Longrightarrow> ?X = Inl (TokenExchangeFailed v)"
    using c1 errorField_cases(2) [of data v] by simp
  have e3: "\<not> truthy ?A \<and>
     (getProp data (js ''error_description'') = None \<or>
      getProp data (js ''error_description'') = Some JNull) \<and>
     (getProp data (js ''error'') = None \<or> getProp data (js ''error'') = Some JNull) \<Longrightarrow>
       ?X = Inl (TokenExchangeFailed (JStr (js ''unknown'')))"
    using c1 errorField_cases(3) [of data] by simp
  have x1: "?A = Some (JStr a) \<and> a \<noteq> [] \<and> ?R = Some (JStr r) \<and> r \<noteq> [] \<and> ?E = Some (JNum n) \<Longrightarrow>
       ?X = Inr \<lparr>accessToken = a, refreshToken = r, expiresAt = Num (int now + n - 60)\<rparr>"
    using c4 [of a r] by (simp add: expiresIn_cases)
  have x2: "?A = Some (JStr a) \<and> a \<noteq> [] \<and> ?R = Some (JStr r) \<and> r \<noteq> [] \<and>
       ?E = Some (JStr s) \<and> parseInt s = Num k \<and> k \<noteq> 0 \<Longrightarrow>
       ?X = Inr \<lparr>accessToken = a, refreshToken = r, expiresAt = Num (int now + k - 60)\<rparr>"
    using c4 [of a r] by (simp add: expiresIn_cases)
  have x3: "?A = Some (JStr a) \<and> a \<noteq> [] \<and> ?R = Some (JStr r) \<and> r \<noteq> [] \<and>
     (?E = None \<or> ?E = Some JNull \<or> ?E = Some (JBool b) \<or> ?E = Some (JArr xs) \<or>
      ?E = Some (JObj kvs) \<or> ?E = Some (JStr s) \<and> parseInt s = NaN) \<Longrightarrow>
       ?X = Inr \<lparr>accessToken = a, refreshToken = r, expiresAt = Num (int now + 3600 - 60)\<rparr>"
  proof -
    assume h: "?A = Some (JStr a) \<and> a \<noteq> [] \<and> ?R = Some (JStr r) \<and> r \<noteq> [] \<and>
     (?E = None \<or> ?E = Some JNull \<or> ?E = Some (JBool b) \<or> ?E = Some (JArr xs) \<or>
      ?E = Some (JObj kvs) \<or> ?E = Some (JStr s) \<and> parseInt s = NaN)"
    then have "expiresIn ?E = 3600" by (auto simp: expiresIn_cases)
    with h c4 [of a r] show ?thesis by simp
  qed
  have c2': "truthy ?A \<and> \<not> nonEmptyString ?A \<Longrightarrow> ?X = Inl InvalidAccessToken"
    using c2 by simp
  have c3': "nonEmptyString ?A \<and> \<not> nonEmptyString ?R \<Longrightarrow> ?X = Inl NoRefreshToken"
    using c3 by simp
  show ?thesis
    apply (intro conjI impI)
             apply (rule i1)
            apply (erule e1)
           apply (erule e2)
          apply (erule e3)
         apply (erule c2')
        apply (erule c3')
       apply (rule i2)
      apply (erule x1)
     apply (erule x2)
    apply (erule x3)
    done
qed

lemma refreshAccessToken_world:
  "snd (refreshAccessToken e now w config cid csec rtok) = sent w (refreshRequest config cid csec rtok)"
  by (simp add: refreshAccessToken_def Let_def split: option.splits)

lemma refreshAccessToken_parse:
  assumes "fetch e (refreshRequest config cid csec rtok) = Some res"
    and "json_parse e (res_text res) = Some data"
    and "parseTokenResponse now data (Some rtok) = Inr rt"
  shows "refreshAccessToken e now w config cid csec rtok =
           (Inr rt, sent w (refreshRequest config cid csec rtok))"
proof -
  from assms(3) have nn: "data \<noteq> JNull" by (auto simp: parseTokenResponse_def)
  from assms(3) have "nonEmptyString (getProp data (js ''access_token''))"
    using parseTokenResponse_invalid [OF nn, of now "Some rtok"] by auto
  then have "truthy (getProp data (js ''access_token''))" by (rule truthy_nonEmptyString)
  with assms nn show ?thesis by (simp add: refreshAccessToken_def Let_def)
qed


lemma parseTokenResponse_access:
  assumes "parseTokenResponse now data existing = Inr rt"
  shows "getProp data (js ''access_token'') = Some (JStr (accessToken rt))"
proof -
  from assms have nn: "data \<noteq> JNull" by (auto simp: parseTokenResponse_def)
  from assms have "nonEmptyString (getProp data (js ''access_token''))"
    using parseTokenResponse_invalid [OF nn, of now existing] by auto
  then obtain a where a: "getProp data (js ''access_token'') = Some (JStr a)" "a \<noteq> []"
    using nonEmptyStringD by blast
  from assms have "accessToken rt = a"
    by (auto simp: parseTokenResponse_refresh [OF a] Let_def split: if_splits)
  with a(1) show ?thesis by simp
qed

lemma getValidAccessToken_refresh:
  assumes "loadTokens w tool = Some tk" and "\<not> num_less (int now) (expiresAt tk)"
  shows "getValidAccessToken kc e now now' w tool config ct =
     (case loadOAuth2Credentials w (case ct of None \<Rightarrow> tool | Some c \<Rightarrow> c) of
        Inl err \<Rightarrow> (Inl err, w)
      | Inr cr \<Rightarrow>
          (case refreshAccessToken e now' w config (clientId cr) (clientSecret cr) (refreshToken tk) of
             (Inl err, w1) \<Rightarrow> (Inl err, w1)
           | (Inr rt, w1) \<Rightarrow>
               (case saveTokens kc w1 tool rt of
                  (Inl err, w2) \<Rightarrow> (Inl err, w2)
                | (Inr u, w2) \<Rightarrow> (Inr (accessToken rt), w2))))"
  using assms by (simp add: getValidAccessToken_def)

lemma getValidAccessToken_credentials:
  assumes "loadTokens w tool = Some tk" and "\<not> num_less (int now) (expiresAt tk)"
    and "loadOAuth2Credentials w (case ct of None \<Rightarrow> tool | Some c \<Rightarrow> c) = Inl err"
  shows "getValidAccessToken kc e now now' w tool config ct = (Inl err, w)"
  by (simp add: getValidAccessToken_refresh [OF assms(1,2)] assms(3))

lemma getValidAccessToken_refresh_fetches:
  assumes "loadTokens w tool = Some tk" and "\<not> num_less (int now) (expiresAt tk)"
    and "loadOAuth2Credentials w (case ct of None \<Rightarrow> tool | Some c \<Rightarrow> c) = Inr cr"
  shows "fetches (snd (getValidAccessToken kc e now now' w tool config ct)) =
           fetches w @ [refreshRequest config (clientId cr) (clientSecret cr) (refreshToken tk)]"
proof -
  let ?req = "refreshRequest config (clientId cr) (clientSecret cr) (refreshToken tk)"
  let ?R = "refreshAccessToken e now' w config (clientId cr) (clientSecret cr) (refreshToken tk)"
  have w1: "snd ?R = sent w ?req" by (rule refreshAccessToken_world)
  show ?thesis
  proof (cases "fst ?R")
    case (Inl err)
    with w1 have "?R = (Inl err, sent w ?req)" by (simp add: prod_eq_iff)
    then show ?thesis
      by (simp add: getValidAccessToken_refresh [OF assms(1,2)] assms(3) fetches_sent)
  next
    case (Inr rt)
    with w1 have R: "?R = (Inr rt, sent w ?req)" by (simp add: prod_eq_iff)
    let ?S = "saveTokens kc (sent w ?req) tool rt"
    have f: "fetches (snd ?S) = fetches w @ [?req]"
      by (simp add: fetches_saveTokens fetches_sent)
    obtain x w2 where S: "?S = (x, w2)" by (cases ?S)
    with f have f2: "fetches w2 = fetches w @ [?req]" by simp
    show ?thesis
      by (cases x) (simp_all add: getValidAccessToken_refresh [OF assms(1,2)] assms(3) R S f2)
  qed
qed


text \<open>
  Claim C1, as the code has it. Without persisted tokens \<open>getValidAccessToken\<close> fails
  with \<open>NotLoggedIn\<close> and does nothing else. With a numeric \<open>expiresAt\<close> and
  \<open>now < expiresAt\<close> it returns the stored access token and does nothing else: no
  request, no write. With a numeric \<open>expiresAt\<close> and \<open>now \<ge> expiresAt\<close> it loads the
  client credentials, from \<open>credentialsTool\<close> when that is given, else from \<open>tool\<close>. When
  they are missing it fails with the error of \<open>loadOAuth2Credentials\<close> and does nothing
  else: no refresh call is made. When they are found it sends exactly one request, the
  refresh request with those credentials and the stored refresh token, whatever the
  answer. When moreover the request is answered, the answer parses,
  \<open>parseTokenResponse\<close> gives refreshed tokens and the Keychain accepts the three
  writes, the refreshed tokens are written after the request and the new access token,
  the \<open>access_token\<close> of the answer, is returned.
\<close>

theorem getValidAccessToken_lifecycle:
  "(loadTokens w tool = None \<longrightarrow>
      getValidAccessToken kc e now now' w tool config ct = (Inl (NotLoggedIn tool), w)) \<and>
   (loadTokens w tool = Some tk \<and> expiresAt tk = Num x \<and> int now < x \<longrightarrow>
      getValidAccessToken kc e now now' w tool config ct = (Inr (accessToken tk), w)) \<and>
   (loadTokens w tool = Some tk \<and> expiresAt tk = Num x \<and> x \<le> int now \<and>
    loadOAuth2Credentials w (case ct of None \<Rightarrow> tool | Some c \<Rightarrow> c) = Inl err \<longrightarrow>
      getValidAccessToken kc e now now' w tool config ct = (Inl err, w) \<and>
      err = NoCredentials (case ct of None \<Rightarrow> tool | Some c \<Rightarrow> c)) \<and>
   (loadTokens w tool = Some tk \<and> expiresAt tk = Num x \<and> x \<le> int now \<and>
    loadOAuth2Credentials w (case ct of None \<Rightarrow> tool | Some c \<Rightarrow> c) = Inr cr \<longrightarrow>
      fetches (snd (getValidAccessToken kc e now now' w tool config ct)) =
        fetches w @ [refreshRequest config (clientId cr) (clientSecret cr) (refreshToken tk)]) \<and>
   (loadTokens w tool = Some tk \<and> expiresAt tk = Num x \<and> x \<le> int now \<and>
    loadOAuth2Credentials w (case ct of None \<Rightarrow> tool | Some c \<Rightarrow> c) = Inr cr \<and>
    fetch e (refreshRequest config (clientId cr) (clientSecret cr) (refreshToken tk)) = Some res \<and>
    json_parse e (res_text res) = Some data \<and>
    parseTokenResponse now' data (Some (refreshToken tk)) = Inr rt \<and>
    accepts_all kc
      (sent w (refreshRequest config (clientId cr) (clientSecret cr) (refreshToken tk))) tool
      [(js ''access-token'', accessToken rt), (js ''refresh-token'', refreshToken rt),
       (js ''expires-at'', numToString (expiresAt rt))] \<longrightarrow>
      fst (getValidAccessToken kc e now now' w tool config ct) = Inr (accessToken rt) \<and>
      getProp data (js ''access_token'') = Some (JStr (accessToken rt)) \<and>
      events (snd (getValidAccessToken kc e now now' w tool config ct)) =
        events w @
          [Fetched (refreshRequest config (clientId cr) (clientSecret cr) (refreshToken tk)),
           SecretSet tool (js ''access-token'') (accessToken rt),
           SecretSet tool (js ''refresh-token'') (refreshToken rt),
           SecretSet tool (js ''expires-at'') (numToString (expiresAt rt))] \<and>
      keychain (snd (getValidAccessToken kc e now now' w tool config ct)) =
        (keychain w)((serviceName tool, js ''access-token'') \<mapsto> accessToken rt,
                     (serviceName tool, js ''refresh-token'') \<mapsto> refreshToken rt,
                     (serviceName tool, js ''expires-at'') \<mapsto> numToString (expiresAt rt)))"
proof -
  let ?G = "getValidAccessToken kc e now now' w tool config ct"
  let ?ns = "case ct of None \<Rightarrow> tool | Some c \<Rightarrow> c"
  let ?req = "refreshRequest config (clientId cr) (clientSecret cr) (refreshToken tk)"
  let ?entries = "[(js ''access-token'', accessToken rt), (js ''refresh-token'', refreshToken rt),
       (js ''expires-at'', numToString (expiresAt rt))]"
  have c1: "loadTokens w tool = None \<Longrightarrow> ?G = (Inl (NotLoggedIn tool), w)"
    by (simp add: getValidAccessToken_def)
  have c2: "loadTokens w tool = Some tk \<and> expiresAt tk = Num x \<and> int now < x \<Longrightarrow>
      ?G = (Inr (accessToken tk), w)"
    by (simp add: getValidAccessToken_def num_less_def)
  have nl: "\<not> num_less (int now) (expiresAt tk)" if "expiresAt tk = Num x" "x \<le> int now"
    using that by (simp add: num_less_def)
  have c3: "?G = (Inl err, w) \<and> err = NoCredentials ?ns"
    if h: "loadTokens w tool = Some tk \<and> expiresAt tk = Num x \<and> x \<le> int now \<and>
       loadOAuth2Credentials w ?ns = Inl err"
  proof -
    from h have lt: "loadTokens w tool = Some tk" and n: "\<not> num_less (int now) (expiresAt tk)"
      and cr: "loadOAuth2Credentials w ?ns = Inl err"
      using nl by simp_all
    from cr have "err = NoCredentials ?ns"
      by (auto simp: loadOAuth2Credentials_def Let_def split: if_splits)
    with getValidAccessToken_credentials [OF lt n cr, of kc e now' config]
    show ?thesis by simp
  qed
  have c4: "fetches (snd ?G) = fetches w @ [?req]"
    if h: "loadTokens w tool = Some tk \<and> expiresAt tk = Num x \<and> x \<le> int now \<and>
       loadOAuth2Credentials w ?ns = Inr cr"
  proof -
    from h have lt: "loadTokens w tool = Some tk" and n: "\<not> num_less (int now) (expiresAt tk)"
      and cr: "loadOAuth2Credentials w ?ns = Inr cr"
      using nl by simp_all
    from lt n cr show ?thesis by (rule getValidAccessToken_refresh_fetches)
  qed
  have c5: "fst ?G = Inr (accessToken rt) \<and>
      getProp data (js ''access_token'') = Some (JStr (accessToken rt)) \<and>
      events (snd ?G) =
        events w @ [Fetched ?req, SecretSet tool (js ''access-token'') (accessToken rt),
           SecretSet tool (js ''refresh-token'') (refreshToken rt),
           SecretSet tool (js ''expires-at'') (numToString (expiresAt rt))] \<and>
      keychain (snd ?G) =
        (keychain w)((serviceName tool, js ''access-token'') \<mapsto> accessToken rt,
                     (serviceName tool, js ''refresh-token'') \<mapsto> refreshToken rt,
                     (serviceName tool, js ''expires-at'') \<mapsto> numToString (expiresAt rt))"
    if h: "loadTokens w tool = Some tk \<and> expiresAt tk = Num x \<and> x \<le> int now \<and>
       loadOAuth2Credentials w ?ns = Inr cr \<and> fetch e ?req = Some res \<and>
       json_parse e (res_text res) = Some data \<and>
       parseTokenResponse now' data (Some (refreshToken tk)) = Inr rt \<and>
       accepts_all kc (sent w ?req) tool ?entries"
  proof -
    from h have lt: "loadTokens w tool = Some tk" and n: "\<not> num_less (int now) (expiresAt tk)"
      and cr: "loadOAuth2Credentials w ?ns = Inr cr"
      and r: "fetch e ?req = Some res" "json_parse e (res_text res) = Some data"
        "parseTokenResponse now' data (Some (refreshToken tk)) = Inr rt"
      and acc: "accepts_all kc (sent w ?req) tool ?entries"
      using nl by simp_all
    have R: "refreshAccessToken e now' w config (clientId cr) (clientSecret cr) (refreshToken tk) =
              (Inr rt, sent w ?req)"
      using r by (rule refreshAccessToken_parse)
    have S: "saveTokens kc (sent w ?req) tool rt = (Inr (), stored_all (sent w ?req) tool ?entries)"
      using acc by (rule saveTokens_accepts)
    have g: "?G = (Inr (accessToken rt), stored_all (sent w ?req) tool ?entries)"
      by (simp add: getValidAccessToken_refresh [OF lt n] cr R S)
    have g1: "fst ?G = Inr (accessToken rt)" by (simp add: g)
    have g2: "getProp data (js ''access_token'') = Some (JStr (accessToken rt))"
      using r(3) by (rule parseTokenResponse_access)
    have g3: "events (snd ?G) =
        events w @ [Fetched ?req, SecretSet tool (js ''access-token'') (accessToken rt),
           SecretSet tool (js ''refresh-token'') (refreshToken rt),
           SecretSet tool (js ''expires-at'') (numToString (expiresAt rt))]"
      by (simp add: g stored_def sent_def)
    have g4: "keychain (snd ?G) =
        (keychain w)((serviceName tool, js ''access-token'') \<mapsto> accessToken rt,
                     (serviceName tool, js ''refresh-token'') \<mapsto> refreshToken rt,
                     (serviceName tool, js ''expires-at'') \<mapsto> numToString (expiresAt rt))"
      by (simp add: g stored_def sent_def)
    from g1 g2 g3 g4 show ?thesis by (intro conjI)
  qed
  show ?thesis
    apply (rule conjI)
     apply (rule impI)
     apply (erule c1)
    apply (rule conjI)
     apply (rule impI)
     apply (erule c2)
    apply (rule conjI)
     apply (rule impI)
     apply (erule c3)
    apply (rule conjI)
     apply (rule impI)
     apply (erule c4)
    apply (rule impI)
    apply (erule c5)
    done
qed

text \<open>
  The claim C1 as written has every state with \<open>now \<ge> expiresAt\<close> load the client
  credentials, make one refresh call and return the new access token. In a Keychain
  that holds expired tokens and no client credentials the call fails, and no request is
  sent.
\<close>

theorem getValidAccessToken_counterexample:
  "loadTokens cal_no_credentials (js ''cal'') =
     Some \<lparr>accessToken = js ''old'', refreshToken = js ''r1'', expiresAt = Num 100\<rparr> \<and>
   getValidAccessToken unlocked (provider full_response) 1000 1001 cal_no_credentials (js ''cal'')
       cal_config None =
     (Inl (NoCredentials (js ''cal'')), cal_no_credentials) \<and>
   fetches cal_no_credentials = []"
proof -
  have l: "loadTokens cal_no_credentials (js ''cal'') =
     Some \<lparr>accessToken = js ''old'', refreshToken = js ''r1'', expiresAt = Num 100\<rparr>"
    by (simp add: cal_no_credentials_def store_of_def cal_store_def cal_tokens_def getSecret_def
        serviceName_def trim_def isWhiteSpace_def js_def absent_def loadTokens_def Let_def
        parseInt_def isDigit_def digitsValue_def)
  have c: "loadOAuth2Credentials cal_no_credentials (js ''cal'') = Inl (NoCredentials (js ''cal''))"
    by (simp add: cal_no_credentials_def store_of_def cal_store_def cal_tokens_def getSecret_def
        serviceName_def js_def absent_def loadOAuth2Credentials_def Let_def)
  have g: "getValidAccessToken unlocked (provider full_response) 1000 1001 cal_no_credentials
       (js ''cal'') cal_config None = (Inl (NoCredentials (js ''cal'')), cal_no_credentials)"
    by (simp add: getValidAccessToken_def l c num_less_def)
  have f: "fetches cal_no_credentials = []"
    by (simp add: fetches_def cal_no_credentials_def store_of_def cal_store_def)
  from l g f show ?thesis by (intro conjI)
qed


lemmas eval_defs = store_of_def cal_store_def cal_credentials_def cal_tokens_def provider_def
  cal_config_def getSecret_def serviceName_def trim_def isWhiteSpace_def js_def absent_def
  loadTokens_def loadOAuth2Credentials_def Let_def

lemmas eval_defs2 = eval_defs access_only_def cal_expired_def cal_fresh_def cal_no_expiry_def
  cal_no_credentials_def cal_bad_expiry_def

theorem getValidAccessToken_lifecycle_witness:
  "getValidAccessToken unlocked (provider access_only) 1000 1001 (cal_store []) (js ''cal'')
       cal_config None =
     (Inl (NotLoggedIn (js ''cal'')), cal_store []) \<and>
   getValidAccessToken unlocked (provider access_only) 1000 1001 cal_fresh (js ''cal'')
       cal_config None =
     (Inr (js ''old''), cal_fresh) \<and>
   getValidAccessToken unlocked (provider access_only) 1000 1001 cal_no_credentials (js ''cal'')
       cal_config None =
     (Inl (NoCredentials (js ''cal'')), cal_no_credentials) \<and>
   fst (getValidAccessToken unlocked (provider access_only) 1000 1001 cal_expired (js ''cal'')
       cal_config None) = Inr (js ''new'') \<and>
   fetches (snd (getValidAccessToken unlocked (provider access_only) 1000 1001 cal_expired
       (js ''cal'') cal_config None)) =
     [refreshRequest cal_config (js ''id'') (js ''sec'') (js ''r1'')] \<and>
   keychain (snd (getValidAccessToken unlocked (provider access_only) 1000 1001 cal_expired
       (js ''cal'') cal_config None)) (serviceName (js ''cal''), js ''access-token'') =
     Some (js ''new'')"
proof -
  let ?e = "provider access_only"
  let ?cr = "\<lparr>clientId = js ''id'', clientSecret = js ''sec'', redirectUri = js ''http://localhost''\<rparr>"
  let ?old = "\<lparr>accessToken = js ''old'', refreshToken = js ''r1'', expiresAt = Num 100\<rparr>"
  let ?fresh = "\<lparr>accessToken = js ''old'', refreshToken = js ''r1'', expiresAt = Num 2000\<rparr>"
  let ?new = "\<lparr>accessToken = js ''new'', refreshToken = js ''r1'', expiresAt = Num 4541\<rparr>"
  let ?res = "\<lparr>res_status = 200, res_setCookie = [], res_text = []\<rparr>"
  let ?req = "refreshRequest cal_config (js ''id'') (js ''sec'') (js ''r1'')"
  have h1: "loadTokens (cal_store []) (js ''cal'') = None"
    by (simp add: eval_defs2)
  have h2: "loadTokens cal_fresh (js ''cal'') = Some ?fresh"
    by (simp add: eval_defs2 parseInt_def isDigit_def digitsValue_def)
  have h3: "loadTokens cal_expired (js ''cal'') = Some ?old"
    by (simp add: eval_defs2 parseInt_def isDigit_def digitsValue_def)
  have h3': "loadTokens cal_no_credentials (js ''cal'') = Some ?old"
    by (simp add: eval_defs2 parseInt_def isDigit_def digitsValue_def)
  have h4: "loadOAuth2Credentials cal_expired (case None of None \<Rightarrow> js ''cal'' | Some c \<Rightarrow> c) = Inr ?cr"
    by (simp add: eval_defs2)
  have h4': "loadOAuth2Credentials cal_no_credentials (case None of None \<Rightarrow> js ''cal'' | Some c \<Rightarrow> c) =
      Inl (NoCredentials (js ''cal''))"
    by (simp add: eval_defs2)
  have h5: "fetch ?e ?req = Some ?res"
    by (simp add: provider_def)
  have h6: "json_parse ?e (res_text ?res) = Some access_only"
    by (simp add: provider_def)
  have h7: "parseTokenResponse 1001 access_only (Some (js ''r1'')) = Inr ?new"
    by (simp add: parseTokenResponse_def expiresIn_def eval_defs2)
  have h8: "accepts_all unlocked (sent cal_expired ?req) (js ''cal'')
      [(js ''access-token'', js ''new''), (js ''refresh-token'', js ''r1''),
       (js ''expires-at'', numToString (Num 4541))]"
    by (simp add: unlocked_def)
  have f0: "fetches cal_expired = []"
    by (simp add: fetches_def eval_defs2)
  note t1 = getValidAccessToken_lifecycle [where w = "cal_store []" and tool = "js ''cal''"
      and kc = unlocked and e = ?e and now = 1000 and now' = 1001 and config = cal_config
      and ct = None]
  note t2 = getValidAccessToken_lifecycle [where w = cal_fresh and tool = "js ''cal''"
      and kc = unlocked and e = ?e and now = 1000 and now' = 1001 and config = cal_config
      and ct = None and tk = ?fresh and x = 2000]
  note t3 = getValidAccessToken_lifecycle [where w = cal_no_credentials and tool = "js ''cal''"
      and kc = unlocked and e = ?e and now = 1000 and now' = 1001 and config = cal_config
      and ct = None and tk = ?old and x = 100 and err = "NoCredentials (js ''cal'')"]
  note t4 = getValidAccessToken_lifecycle [where w = cal_expired and tool = "js ''cal''"
      and kc = unlocked and e = ?e and now = 1000 and now' = 1001 and config = cal_config
      and ct = None and tk = ?old and x = 100 and cr = ?cr and res = ?res
      and data = access_only and rt = ?new]
  from t1 h1 have r1: "getValidAccessToken unlocked ?e 1000 1001 (cal_store []) (js ''cal'')
       cal_config None = (Inl (NotLoggedIn (js ''cal'')), cal_store [])"
    by (simp only: simp_thms)
  from t2 h2 have r2: "getValidAccessToken unlocked ?e 1000 1001 cal_fresh (js ''cal'')
       cal_config None = (Inr (js ''old''), cal_fresh)"
    by simp
  from t3 h3' h4' have r3: "getValidAccessToken unlocked ?e 1000 1001 cal_no_credentials
       (js ''cal'') cal_config None = (Inl (NoCredentials (js ''cal'')), cal_no_credentials)"
    by simp
  from t4 h3 h4 h5 h6 h7 h8 f0 have r4:
    "fst (getValidAccessToken unlocked ?e 1000 1001 cal_expired (js ''cal'') cal_config None) =
       Inr (js ''new'')"
    "fetches (snd (getValidAccessToken unlocked ?e 1000 1001 cal_expired (js ''cal'')
       cal_config None)) = [?req]"
    by simp_all
  have d: "js ''access-token'' \<noteq> js ''refresh-token''" "js ''access-token'' \<noteq> js ''expires-at''"
    by (simp_all add: js_def)
  from t4 h3 h4 h5 h6 h7 h8 d have r5:
    "keychain (snd (getValidAccessToken unlocked ?e 1000 1001 cal_expired (js ''cal'')
       cal_config None)) (serviceName (js ''cal''), js ''access-token'') = Some (js ''new'')"
    by simp
  from r1 r2 r3 r4 r5 show ?thesis by (intro conjI)
qed

theorem exchangeCode_no_refresh_token_witness:
  "getProp access_only (js ''access_token'') = Some (JStr (js ''new'')) \<and>
   \<not> nonEmptyString (getProp access_only (js ''refresh_token'')) \<and>
   fst (exchangeCode (provider access_only) 1000 (cal_store []) cal_config (js ''id'') (js ''sec'')
          (js ''http://localhost'') (js ''code'')) = Inl NoRefreshToken"
proof -
  let ?e = "provider access_only"
  let ?res = "\<lparr>res_status = 200, res_setCookie = [], res_text = []\<rparr>"
  have h1: "fetch ?e (exchangeRequest cal_config (js ''id'') (js ''sec'') (js ''http://localhost'')
      (js ''code'')) = Some ?res"
    by (simp add: provider_def)
  have h2: "json_parse ?e (res_text ?res) = Some access_only" by (simp add: provider_def)
  have h3: "getProp access_only (js ''access_token'') = Some (JStr (js ''new''))"
    by (simp add: access_only_def js_def)
  have h4: "js ''new'' \<noteq> []" by (simp add: js_def)
  have h5: "\<not> nonEmptyString (getProp access_only (js ''refresh_token''))"
    by (simp add: access_only_def js_def)
  from exchangeCode_no_refresh_token [OF h1 h2 h3 h4 h5, of 1000 "cal_store []"] h3 h5
  show ?thesis by (intro conjI)
qed

theorem exchangeCode_outcomes_witness:
  "fst (exchangeCode (provider full_response) 1000 (cal_store []) cal_config (js ''id'') (js ''sec'')
          (js ''http://localhost'') (js ''code'')) =
     Inr \<lparr>accessToken = js ''new'', refreshToken = js ''r2'', expiresAt = Num 8140\<rparr> \<and>
   \<not> truthy (getProp error_response (js ''access_token'')) \<and>
   fst (exchangeCode (provider error_response) 1000 (cal_store []) cal_config (js ''id'') (js ''sec'')
          (js ''http://localhost'') (js ''code'')) =
     Inl (TokenExchangeFailed (JStr (js ''Bad code'')))"
proof -
  let ?res = "\<lparr>res_status = 200, res_setCookie = [], res_text = []\<rparr>"
  let ?rq = "exchangeRequest cal_config (js ''id'') (js ''sec'') (js ''http://localhost'') (js ''code'')"
  have f1: "fetch (provider full_response) ?rq = Some ?res" by (simp add: provider_def)
  have j1: "json_parse (provider full_response) (res_text ?res) = Some full_response"
    by (simp add: provider_def)
  have n1: "full_response \<noteq> JNull" by (simp add: full_response_def)
  have a1: "getProp full_response (js ''access_token'') = Some (JStr (js ''new'')) \<and> js ''new'' \<noteq> [] \<and>
     getProp full_response (js ''refresh_token'') = Some (JStr (js ''r2'')) \<and> js ''r2'' \<noteq> [] \<and>
     getProp full_response (js ''expires_in'') = Some (JNum 7200)"
    by (simp add: full_response_def js_def)
  note t1 = exchangeCode_outcomes [OF f1 j1 n1, where now = 1000 and w = "cal_store []"
      and a = "js ''new''" and r = "js ''r2''" and n = 7200]
  from t1 a1 have r1: "fst (exchangeCode (provider full_response) 1000 (cal_store []) cal_config (js ''id'')
      (js ''sec'') (js ''http://localhost'') (js ''code'')) =
     Inr \<lparr>accessToken = js ''new'', refreshToken = js ''r2'', expiresAt = Num 8140\<rparr>"
    by simp
  have f2: "fetch (provider error_response) ?rq = Some ?res" by (simp add: provider_def)
  have j2: "json_parse (provider error_response) (res_text ?res) = Some error_response"
    by (simp add: provider_def)
  have n2: "error_response \<noteq> JNull" by (simp add: error_response_def)
  have a2: "\<not> truthy (getProp error_response (js ''access_token''))"
    by (simp add: error_response_def js_def)
  have d2: "getProp error_response (js ''error_description'') = Some (JStr (js ''Bad code''))"
    by (simp add: error_response_def js_def)
  note t2 = exchangeCode_outcomes [OF f2 j2 n2, where now = 1000 and w = "cal_store []"
      and v = "JStr (js ''Bad code'')"]
  from t2 a2 d2 have r2: "fst (exchangeCode (provider error_response) 1000 (cal_store []) cal_config (js ''id'')
      (js ''sec'') (js ''http://localhost'') (js ''code'')) =
     Inl (TokenExchangeFailed (JStr (js ''Bad code'')))"
    by simp
  from r1 a2 r2 show ?thesis by (intro conjI)
qed

text \<open>
  The claim C2 as written leaves two outcomes, tokens or \<open>TokenExchangeFailed\<close>, and ties the
  failure to a response without \<open>access_token\<close>. A response with an access token and no
  refresh token gives neither.
\<close>

theorem exchangeCode_counterexample:
  "getProp bearer_only (js ''access_token'') = Some (JStr (js ''tok'')) \<and>
   fst (exchangeCode (provider bearer_only) 1000 (cal_store []) cal_config (js ''id'') (js ''sec'')
          (js ''http://localhost'') (js ''code'')) = Inl NoRefreshToken"
  by (simp add: exchangeCode_def parseTokenResponse_def provider_def bearer_only_def js_def absent_def)

theorem refreshAccessToken_preserves_refresh_token_witness:
  "(\<exists>t. fst (refreshAccessToken (provider access_only) 1001 (cal_store []) cal_config (js ''id'')
             (js ''sec'') (js ''r1'')) = Inr t \<and>
        refreshToken t = js ''r1'' \<and> accessToken t = js ''new'') \<and>
   fst (refreshAccessToken (provider access_only) 1001 (cal_store []) cal_config (js ''id'')
          (js ''sec'') []) = Inl NoRefreshToken"
proof -
  let ?e = "provider access_only"
  let ?res = "\<lparr>res_status = 200, res_setCookie = [], res_text = []\<rparr>"
  have h: "fetch ?e (refreshRequest cal_config (js ''id'') (js ''sec'') rt) = Some ?res \<and>
    json_parse ?e (res_text ?res) = Some access_only \<and>
    getProp access_only (js ''access_token'') = Some (JStr (js ''new'')) \<and> js ''new'' \<noteq> [] \<and>
    \<not> nonEmptyString (getProp access_only (js ''refresh_token''))" for rt
    by (simp add: provider_def access_only_def js_def)
  have ne: "js ''r1'' \<noteq> []" by (simp add: js_def)
  note t1 = refreshAccessToken_preserves_refresh_token
    [of ?e cal_config "js ''id''" "js ''sec''" "js ''r1''" ?res access_only "js ''new''" 1001 "cal_store []"]
  note t2 = refreshAccessToken_preserves_refresh_token
    [of ?e cal_config "js ''id''" "js ''sec''" "[]" ?res access_only "js ''new''" 1001 "cal_store []"]
  from t1 h [of "js ''r1''"] ne have r1: "\<exists>t. fst (refreshAccessToken ?e 1001 (cal_store []) cal_config (js ''id'')
             (js ''sec'') (js ''r1'')) = Inr t \<and> refreshToken t = js ''r1'' \<and> accessToken t = js ''new''"
    by blast
  from t2 h [of "[]"] have r2: "fst (refreshAccessToken ?e 1001 (cal_store []) cal_config (js ''id'')
          (js ''sec'') []) = Inl NoRefreshToken"
    by blast
  from r1 r2 show ?thesis by (rule conjI)
qed


subsection \<open>Garmin tokens and login\<close>




lemma serviceName_inj: "serviceName t = serviceName t' \<longleftrightarrow> t = t'"
  by (simp add: serviceName_def)

lemma getSecret_sent: "getSecret (sent w r) t k = getSecret w t k"
  by (simp add: getSecret_def sent_def)

lemma keychain_stored:
  "keychain (stored w t k v) = (keychain w)((serviceName t, k) \<mapsto> v)"
  by (simp add: stored_def)

lemma events_stored: "events (stored w t k v) = events w @ [SecretSet t k v]"
  by (simp add: stored_def)

lemma keychain_setSecrets_other:
  "a \<notin> fst ` set entries \<Longrightarrow>
   keychain (snd (setSecrets kc w t entries)) (serviceName t, a) = keychain w (serviceName t, a)"
proof (induction entries arbitrary: w)
  case Nil
  show ?case by simp
next
  case (Cons entry entries)
  obtain b arg where entry: "entry = (b, arg)" by (cases entry)
  from Cons.prems entry have ab: "a \<noteq> b" and rest: "a \<notin> fst ` set entries" by auto
  show ?case
  proof (cases arg)
    case None
    with entry show ?thesis by simp
  next
    case (Some v)
    show ?thesis
    proof (cases "kc w (serviceName t) b v")
      case True
      with entry Some ab show ?thesis
        by (simp add: setSecret_def Cons.IH [OF rest] keychain_stored)
    next
      case False
      with entry Some show ?thesis by (simp add: setSecret_def)
    qed
  qed
qed

lemma events_setSecrets:
  "\<exists>more. events (snd (setSecrets kc w t entries)) = events w @ more"
proof (induction entries arbitrary: w)
  case Nil
  show ?case by simp
next
  case (Cons entry entries)
  obtain b arg where entry: "entry = (b, arg)" by (cases entry)
  show ?case
  proof (cases arg)
    case None
    with entry show ?thesis by simp
  next
    case (Some v)
    show ?thesis
    proof (cases "kc w (serviceName t) b v")
      case True
      from Cons.IH [of "stored w t b v"] obtain more where
        "events (snd (setSecrets kc (stored w t b v) t entries)) = events (stored w t b v) @ more"
        by blast
      with entry Some True show ?thesis by (simp add: setSecret_def events_stored)
    next
      case False
      with entry Some show ?thesis by (simp add: setSecret_def)
    qed
  qed
qed

lemma account_names_distinct:
  "js ''oauth1-token'' \<noteq> js ''access-token''" "js ''oauth1-token'' \<noteq> js ''refresh-token''"
  "js ''oauth1-token'' \<noteq> js ''expires-at''" "js ''oauth1-token'' \<noteq> js ''refresh-expires-at''"
  "js ''oauth1-secret'' \<noteq> js ''access-token''" "js ''oauth1-secret'' \<noteq> js ''refresh-token''"
  "js ''oauth1-secret'' \<noteq> js ''expires-at''" "js ''oauth1-secret'' \<noteq> js ''refresh-expires-at''"
  "js ''oauth1-token'' \<noteq> js ''oauth1-secret''"
  "js ''access-token'' \<noteq> js ''refresh-token''" "js ''access-token'' \<noteq> js ''expires-at''"
  "js ''access-token'' \<noteq> js ''refresh-expires-at''"
  by (simp_all add: js_def)

text \<open>
  What \<open>exchangeOAuth2\<close> leaves behind: the world it was given, or that world after the
  signed request and after some of the writes to its four accounts.
\<close>

lemma exchangeOAuth2_world:
  "snd (exchangeOAuth2 kc e now w c t s) = w \<or>
   (\<exists>h entries.
      fst ` set entries \<subseteq>
        {js ''access-token'', js ''refresh-token'', js ''expires-at'', js ''refresh-expires-at''} \<and>
      snd (exchangeOAuth2 kc e now w c t s) =
        snd (setSecrets kc (sent w (exchangeOAuth2Request h)) TOOL entries))"
proof (cases "oauth1Header e (js ''POST'') exchangeUrl (consumer_key c) (consumer_secret c) t s")
  case None
  then show ?thesis by (simp add: exchangeOAuth2_def)
next
  case (Some h)
  let ?w1 = "sent w (exchangeOAuth2Request h)"
  have empty: "snd (exchangeOAuth2 kc e now w c t s) = ?w1 \<Longrightarrow> ?thesis"
  proof -
    assume x: "snd (exchangeOAuth2 kc e now w c t s) = ?w1"
    have "fst ` set ([] :: (jsstring \<times> jsstring option) list) \<subseteq>
        {js ''access-token'', js ''refresh-token'', js ''expires-at'', js ''refresh-expires-at''} \<and>
      snd (exchangeOAuth2 kc e now w c t s) = snd (setSecrets kc ?w1 TOOL [])"
      using x by simp
    then show ?thesis by blast
  qed
  show ?thesis
  proof (cases "fetch e (exchangeOAuth2Request h)")
    case None
    with Some have "snd (exchangeOAuth2 kc e now w c t s) = ?w1"
      by (simp add: exchangeOAuth2_def Let_def)
    then show ?thesis by (rule empty)
  next
    case res: (Some res)
    show ?thesis
    proof (cases "ok res")
      case False
      with Some res have "snd (exchangeOAuth2 kc e now w c t s) = ?w1"
        by (simp add: exchangeOAuth2_def Let_def)
      then show ?thesis by (rule empty)
    next
      case True
      show ?thesis
      proof (cases "json_parse e (res_text res)")
        case None
        with Some res True have "snd (exchangeOAuth2 kc e now w c t s) = ?w1"
          by (simp add: exchangeOAuth2_def Let_def)
        then show ?thesis by (rule empty)
      next
        case data: (Some data)
        show ?thesis
        proof (cases "data = JNull")
          case True
          with Some res \<open>ok res\<close> data have "snd (exchangeOAuth2 kc e now w c t s) = ?w1"
            by (simp add: exchangeOAuth2_def Let_def)
          then show ?thesis by (rule empty)
        next
          case False
          let ?entries = "[(js ''access-token'', secretArg e (getProp data (js ''access_token''))),
              (js ''refresh-token'', secretArg e (getProp data (js ''refresh_token''))),
              (js ''expires-at'', Some (expiryText e now (getProp data (js ''expires_in'')))),
              (js ''refresh-expires-at'',
               Some (expiryText e now (getProp data (js ''refresh_token_expires_in''))))]"
          from Some res \<open>ok res\<close> data False
          have x: "exchangeOAuth2 kc e now w c t s = setSecrets kc ?w1 TOOL ?entries"
            unfolding exchangeOAuth2_def Let_def by simp
          have "fst ` set ?entries \<subseteq>
              {js ''access-token'', js ''refresh-token'', js ''expires-at'',
               js ''refresh-expires-at''} \<and>
            snd (exchangeOAuth2 kc e now w c t s) = snd (setSecrets kc ?w1 TOOL ?entries)"
            by (simp only: x) simp
          then show ?thesis by blast
        qed
      qed
    qed
  qed
qed

lemma exchangeOAuth2_keeps:
  assumes "a \<notin> {js ''access-token'', js ''refresh-token'', js ''expires-at'',
                js ''refresh-expires-at''}"
  shows "keychain (snd (exchangeOAuth2 kc e now w c t s)) (serviceName TOOL, a) =
           keychain w (serviceName TOOL, a)"
proof -
  from exchangeOAuth2_world [of kc e now w c t s]
  consider "snd (exchangeOAuth2 kc e now w c t s) = w"
    | h entries where "fst ` set entries \<subseteq>
        {js ''access-token'', js ''refresh-token'', js ''expires-at'', js ''refresh-expires-at''}"
      "snd (exchangeOAuth2 kc e now w c t s) =
        snd (setSecrets kc (sent w (exchangeOAuth2Request h)) TOOL entries)"
    by blast
  then show ?thesis
  proof cases
    case 1
    then show ?thesis by simp
  next
    case 2
    from 2(1) assms have "a \<notin> fst ` set entries" by blast
    from keychain_setSecrets_other [OF this, of kc "sent w (exchangeOAuth2Request h)" TOOL] 2(2)
    show ?thesis by (simp add: keychain_sent)
  qed
qed

lemma exchangeOAuth2_keeps_oauth1:
  "keychain (snd (exchangeOAuth2 kc e now w c t s)) (serviceName TOOL, js ''oauth1-token'') =
     keychain w (serviceName TOOL, js ''oauth1-token'') \<and>
   keychain (snd (exchangeOAuth2 kc e now w c t s)) (serviceName TOOL, js ''oauth1-secret'') =
     keychain w (serviceName TOOL, js ''oauth1-secret'')"
  by (simp add: exchangeOAuth2_keeps account_names_distinct)

lemma exchangeOAuth2_events:
  "\<exists>rest. events (snd (exchangeOAuth2 kc e now w c t s)) = events w @ rest \<and>
     (rest = [] \<or> (\<exists>h more. rest = Fetched (exchangeOAuth2Request h) # more))"
proof -
  from exchangeOAuth2_world [of kc e now w c t s]
  consider "snd (exchangeOAuth2 kc e now w c t s) = w"
    | h entries where
      "snd (exchangeOAuth2 kc e now w c t s) =
        snd (setSecrets kc (sent w (exchangeOAuth2Request h)) TOOL entries)"
    by blast
  then show ?thesis
  proof cases
    case 1
    then show ?thesis by simp
  next
    case 2
    from events_setSecrets [of kc "sent w (exchangeOAuth2Request h)" TOOL entries]
    obtain more where
      "events (snd (setSecrets kc (sent w (exchangeOAuth2Request h)) TOOL entries)) =
         events (sent w (exchangeOAuth2Request h)) @ more"
      by blast
    with 2 have "events (snd (exchangeOAuth2 kc e now w c t s)) =
        events w @ Fetched (exchangeOAuth2Request h) # more"
      by (simp add: sent_def)
    then show ?thesis by blast
  qed
qed






lemma getConsumer_cached:
  "getSecret w TOOL (js ''consumer-key'') = Some k \<Longrightarrow> k \<noteq> [] \<Longrightarrow>
   getSecret w TOOL (js ''consumer-secret'') = Some sec \<Longrightarrow>
   getConsumer kc e w =
     (Inr \<lparr>consumer_key = Some (JStr k), consumer_secret = Some (JStr sec)\<rparr>, w)"
  by (simp add: getConsumer_def requireSecret_def absent_def Let_def)


text \<open>
  Claim C7. Let the sign-in have produced a ticket and the preauthorized endpoint have
  answered with an OAuth1 token and secret. When the Keychain accepts the two writes,
  \<open>login\<close> is \<open>exchangeOAuth2\<close> run in a world \<open>w5\<close> in which both are already in the
  Keychain: in the log the two writes come after the preauthorized request and before
  anything the exchange does, a request to the exchange endpoint included; and both
  entries are still there, unchanged, when \<open>login\<close> ends, whatever the exchange did and
  whether it failed or not. When the Keychain refuses one of the two writes, \<open>login\<close>
  fails with the error of \<open>setSecret\<close> and the exchange is not attempted: the
  preauthorized request is the last one sent.
\<close>

theorem login_persists_oauth1:
  assumes "login_ticket kc e w email password = (Inr (consumer, ticket), w3)"
    and "oauth1HeaderNoToken e (js ''GET'') oauth1Url (consumer_key consumer)
           (consumer_secret consumer) [(js ''ticket'', ticket)] = Some h"
    and "encodeURIComponent ticket = Inr et"
    and "fetch e (preauthorizedRequest h et) = Some res" and "ok res"
    and "form_get e (res_text res) (js ''oauth_token'') = Some t" and "t \<noteq> []"
    and "form_get e (res_text res) (js ''oauth_token_secret'') = Some sec" and "sec \<noteq> []"
    and "w5 = stored_all (sent w3 (preauthorizedRequest h et)) TOOL
                [(js ''oauth1-token'', t), (js ''oauth1-secret'', sec)]"
  shows
   "(accepts_all kc (sent w3 (preauthorizedRequest h et)) TOOL
       [(js ''oauth1-token'', t), (js ''oauth1-secret'', sec)] \<longrightarrow>
      login kc e now w email password = exchangeOAuth2 kc e now w5 consumer t sec \<and>
      keychain w5 (serviceName TOOL, js ''oauth1-token'') = Some t \<and>
      keychain w5 (serviceName TOOL, js ''oauth1-secret'') = Some sec \<and>
      (\<exists>rest. events (snd (login kc e now w email password)) =
          events w3 @ [Fetched (preauthorizedRequest h et), SecretSet TOOL (js ''oauth1-token'') t,
                       SecretSet TOOL (js ''oauth1-secret'') sec] @ rest \<and>
          (rest = [] \<or> (\<exists>h' more. rest = Fetched (exchangeOAuth2Request h') # more))) \<and>
      keychain (snd (login kc e now w email password)) (serviceName TOOL, js ''oauth1-token'') =
        Some t \<and>
      keychain (snd (login kc e now w email password)) (serviceName TOOL, js ''oauth1-secret'') =
        Some sec) \<and>
    (\<not> accepts_all kc (sent w3 (preauthorizedRequest h et)) TOOL
         [(js ''oauth1-token'', t), (js ''oauth1-secret'', sec)] \<longrightarrow>
      (\<exists>a. fst (login kc e now w email password) = Inl (KeychainWriteFailed (serviceName TOOL) a)) \<and>
      fetches (snd (login kc e now w email password)) = fetches w3 @ [preauthorizedRequest h et])"
proof (rule conjI; rule impI)
  let ?L = "login kc e now w email password"
  let ?w4 = "sent w3 (preauthorizedRequest h et)"
  have l1: "?L = login_tokens kc e now w3 consumer ticket"
    by (simp add: login_def assms(1))
  have lt: "?L = (case setSecrets kc ?w4 TOOL
                         [(js ''oauth1-token'', Some t), (js ''oauth1-secret'', Some sec)] of
                    (Inl err, w') \<Rightarrow> (Inl err, w')
                  | (Inr u, w') \<Rightarrow> exchangeOAuth2 kc e now w' consumer t sec)"
    unfolding l1 login_tokens_def Let_def assms(2,3,4,6,8) option.sel option.case sum.case
    using assms(5,7,9) by (simp add: absent_def del: setSecrets.simps)
  {
    assume acc: "accepts_all kc ?w4 TOOL [(js ''oauth1-token'', t), (js ''oauth1-secret'', sec)]"
    have S: "setSecrets kc ?w4 TOOL [(js ''oauth1-token'', Some t), (js ''oauth1-secret'', Some sec)] =
        (Inr (), w5)"
      using setSecrets_accepts [OF acc] by (simp add: assms(10))
    have l: "?L = exchangeOAuth2 kc e now w5 consumer t sec"
      by (simp only: lt S) simp
    have k1: "keychain w5 (serviceName TOOL, js ''oauth1-token'') = Some t"
      by (simp add: assms(10) keychain_stored account_names_distinct)
    have k2: "keychain w5 (serviceName TOOL, js ''oauth1-secret'') = Some sec"
      by (simp add: assms(10) keychain_stored)
    have ev5: "events w5 = events w3 @ [Fetched (preauthorizedRequest h et),
        SecretSet TOOL (js ''oauth1-token'') t, SecretSet TOOL (js ''oauth1-secret'') sec]"
      by (simp add: assms(10) events_stored sent_def)
    from exchangeOAuth2_events [of kc e now w5 consumer t sec]
    obtain rest where rest: "events (snd (exchangeOAuth2 kc e now w5 consumer t sec)) = events w5 @ rest"
      "rest = [] \<or> (\<exists>h' more. rest = Fetched (exchangeOAuth2Request h') # more)"
      by blast
    have ev: "\<exists>rest. events (snd ?L) =
          events w3 @ [Fetched (preauthorizedRequest h et), SecretSet TOOL (js ''oauth1-token'') t,
                       SecretSet TOOL (js ''oauth1-secret'') sec] @ rest \<and>
          (rest = [] \<or> (\<exists>h' more. rest = Fetched (exchangeOAuth2Request h') # more))"
      using rest by (intro exI [of _ rest]) (simp add: l ev5)
    have a1: "keychain (snd ?L) (serviceName TOOL, js ''oauth1-token'') = Some t"
      using exchangeOAuth2_keeps_oauth1 [of kc e now w5 consumer t sec] k1 by (simp add: l)
    have a2: "keychain (snd ?L) (serviceName TOOL, js ''oauth1-secret'') = Some sec"
      using exchangeOAuth2_keeps_oauth1 [of kc e now w5 consumer t sec] k2 by (simp add: l)
    from l k1 k2 ev a1 a2
    show "?L = exchangeOAuth2 kc e now w5 consumer t sec \<and>
      keychain w5 (serviceName TOOL, js ''oauth1-token'') = Some t \<and>
      keychain w5 (serviceName TOOL, js ''oauth1-secret'') = Some sec \<and>
      (\<exists>rest. events (snd ?L) =
          events w3 @ [Fetched (preauthorizedRequest h et), SecretSet TOOL (js ''oauth1-token'') t,
                       SecretSet TOOL (js ''oauth1-secret'') sec] @ rest \<and>
          (rest = [] \<or> (\<exists>h' more. rest = Fetched (exchangeOAuth2Request h') # more))) \<and>
      keychain (snd ?L) (serviceName TOOL, js ''oauth1-token'') = Some t \<and>
      keychain (snd ?L) (serviceName TOOL, js ''oauth1-secret'') = Some sec"
      by (intro conjI)
  }
  {
    assume ref: "\<not> accepts_all kc ?w4 TOOL [(js ''oauth1-token'', t), (js ''oauth1-secret'', sec)]"
    let ?S = "setSecrets kc ?w4 TOOL [(js ''oauth1-token'', Some t), (js ''oauth1-secret'', Some sec)]"
    from setSecrets_refused [OF ref] obtain a where
      a: "fst ?S = Inl (KeychainWriteFailed (serviceName TOOL) a)"
      by auto
    have f: "fetches (snd ?S) = fetches ?w4" by (rule fetches_setSecrets)
    obtain w' where S: "?S = (Inl (KeychainWriteFailed (serviceName TOOL) a), w')"
      using a by (cases ?S) simp
    with f have f': "fetches w' = fetches w3 @ [preauthorizedRequest h et]"
      by (simp add: fetches_sent)
    have l: "?L = (Inl (KeychainWriteFailed (serviceName TOOL) a), w')"
      by (simp only: lt S) simp
    have "fst ?L = Inl (KeychainWriteFailed (serviceName TOOL) a)" by (simp add: l)
    then have "\<exists>a. fst ?L = Inl (KeychainWriteFailed (serviceName TOOL) a)" by (rule exI)
    moreover have "fetches (snd ?L) = fetches w3 @ [preauthorizedRequest h et]"
      by (simp add: l f')
    ultimately show "(\<exists>a. fst ?L = Inl (KeychainWriteFailed (serviceName TOOL) a)) \<and>
      fetches (snd ?L) = fetches w3 @ [preauthorizedRequest h et]"
      by (rule conjI)
  }
qed

lemmas garmin_eval = garmin_store_def store_of_def garmin_entries_def getSecret_def serviceName_def
  TOOL_def trim_def isWhiteSpace_def js_def orZero_def parseInt_def isDigit_def digitsValue_def
  Let_def



lemma login_page_csrf: "matchCsrf login_page = Some (js ''tok'')"
  by (simp add: login_page_def csrfName_def csrfValue_def csrfAt_def isWhiteSpace_def
      isLineTerminator_def js_def)

lemma login_page_ticket: "login_outcome login_page = Inr (js ''abc123'')"
  by (simp add: login_page_def csrfName_def csrfValue_def login_outcome_def ticketAt_def
      ticketChar_def isWhiteSpace_def js_def)

lemma login_ticket_site:
  "fst (login_ticket kc (garmin_site answer) (garmin_store garmin_consumer) (js ''me@example.org'')
          (js ''pw'')) =
     Inr (\<lparr>consumer_key = Some (JStr (js ''ck'')), consumer_secret = Some (JStr (js ''cs''))\<rparr>,
          js ''abc123'')"
proof -
  have c: "getConsumer kc (garmin_site answer) (garmin_store garmin_consumer) =
      (Inr \<lparr>consumer_key = Some (JStr (js ''ck'')), consumer_secret = Some (JStr (js ''cs''))\<rparr>,
       garmin_store garmin_consumer)"
    by (rule getConsumer_cached) (simp_all add: garmin_eval garmin_consumer_def)
  show ?thesis
    unfolding login_ticket_def c
    by (simp add: garmin_site_def Let_def login_page_csrf login_page_ticket)
qed

theorem login_persists_oauth1_witness:
  "fst (login unlocked (garmin_site None) 1000 (garmin_store garmin_consumer)
          (js ''me@example.org'') (js ''pw'')) = Inl JsonRejected \<and>
   keychain (snd (login unlocked (garmin_site None) 1000 (garmin_store garmin_consumer)
          (js ''me@example.org'') (js ''pw'')))
     (serviceName TOOL, js ''oauth1-token'') = Some (js ''o1'') \<and>
   keychain (snd (login unlocked (garmin_site None) 1000 (garmin_store garmin_consumer)
          (js ''me@example.org'') (js ''pw'')))
     (serviceName TOOL, js ''oauth1-secret'') = Some (js ''s1'') \<and>
   (\<exists>a. fst (login (refusing (js ''oauth1-secret'')) (garmin_site None) 1000
               (garmin_store garmin_consumer) (js ''me@example.org'') (js ''pw'')) =
          Inl (KeychainWriteFailed (serviceName TOOL) a))"
proof -
  let ?e = "garmin_site None"
  let ?w = "garmin_store garmin_consumer"
  let ?c = "\<lparr>consumer_key = Some (JStr (js ''ck'')), consumer_secret = Some (JStr (js ''cs''))\<rparr>"
  let ?res = "\<lparr>res_status = 200, res_setCookie = [js ''SESSION=1; Path=/''], res_text = login_page\<rparr>"
  let ?rq = "preauthorizedRequest (js ''OAuth'') (js ''abc123'')"
  have h1: "login_ticket kc ?e ?w (js ''me@example.org'') (js ''pw'') =
      (Inr (?c, js ''abc123''), snd (login_ticket kc ?e ?w (js ''me@example.org'') (js ''pw'')))"
    for kc
    using login_ticket_site [of kc None] by (simp add: prod_eq_iff)
  have h2: "oauth1HeaderNoToken ?e (js ''GET'') oauth1Url (consumer_key ?c) (consumer_secret ?c)
      [(js ''ticket'', js ''abc123'')] = Some (js ''OAuth'')"
    by (simp add: garmin_site_def)
  have h3: "encodeURIComponent (js ''abc123'') = Inr (js ''abc123'')"
    by (simp add: js_def uriUnescaped_def isAlpha_def isDigit_def prepend_def)
  have h4: "fetch ?e ?rq = Some ?res" by (simp add: garmin_site_def)
  have h5: "ok ?res" by (simp add: ok_def)
  have h6: "form_get ?e (res_text ?res) (js ''oauth_token'') = Some (js ''o1'')"
    by (simp add: garmin_site_def)
  have h7: "js ''o1'' \<noteq> []" by (simp add: js_def)
  have h8: "form_get ?e (res_text ?res) (js ''oauth_token_secret'') = Some (js ''s1'')"
    by (simp add: garmin_site_def js_def)
  have h9: "js ''s1'' \<noteq> []" by (simp add: js_def)
  let ?w3 = "snd (login_ticket unlocked ?e ?w (js ''me@example.org'') (js ''pw''))"
  let ?w3' = "snd (login_ticket (refusing (js ''oauth1-secret'')) ?e ?w (js ''me@example.org'')
      (js ''pw''))"
  let ?w5 = "stored_all (sent ?w3 ?rq) TOOL [(js ''oauth1-token'', js ''o1''),
      (js ''oauth1-secret'', js ''s1'')]"
  note t = login_persists_oauth1 [OF h1 h2 h3 h4 h5 h6 h7 h8 h9 refl, where now = 1000]
  have acc: "accepts_all unlocked (sent ?w3 ?rq) TOOL
      [(js ''oauth1-token'', js ''o1''), (js ''oauth1-secret'', js ''s1'')]"
    by (simp add: unlocked_def)
  have ref: "\<not> accepts_all (refusing (js ''oauth1-secret'')) (sent ?w3' ?rq) TOOL
      [(js ''oauth1-token'', js ''o1''), (js ''oauth1-secret'', js ''s1'')]"
    by (simp add: refusing_def)
  have x: "fst (exchangeOAuth2 unlocked ?e 1000 ?w5 ?c (js ''o1'') (js ''s1'')) = Inl JsonRejected"
    by (simp add: exchangeOAuth2_def garmin_site_def ok_def Let_def)
  note ta = t [where kc = unlocked, THEN conjunct1, rule_format, OF acc]
  note tr = t [where kc = "refusing (js ''oauth1-secret'')", THEN conjunct2, rule_format, OF ref]
  note l = ta [THEN conjunct1]
  note a1 = ta [THEN conjunct2, THEN conjunct2, THEN conjunct2, THEN conjunct2, THEN conjunct1]
  note a2 = ta [THEN conjunct2, THEN conjunct2, THEN conjunct2, THEN conjunct2, THEN conjunct2]
  note r = tr [THEN conjunct1]
  from x have "fst (login unlocked ?e 1000 ?w (js ''me@example.org'') (js ''pw'')) =
      Inl JsonRejected" by (simp only: l)
  with a1 a2 r show ?thesis by (intro conjI)
qed

subsection \<open>The callback listener\<close>

lemma resolve_Resolved: "resolve (Resolved v) u = Resolved v"
  by (simp add: resolve_def)

lemma reject_Resolved: "reject (Resolved v) err = Resolved v"
  by (simp add: reject_def)

lemma reject_not_Resolved: "reject p err = Resolved v \<Longrightarrow> p = Resolved v"
  by (cases p) (simp_all add: reject_def)

lemma callback_fetch_Resolved:
  "outcome l = Resolved v \<Longrightarrow> outcome (fst (callback_fetch st ru l q)) = Resolved v"
  by (simp add: callback_fetch_def resolve_Resolved reject_Resolved)

lemma step_Resolved:
  "outcome l = Resolved v \<Longrightarrow> outcome (fst (step st ru l sig)) = Resolved v"
  by (cases sig) (simp_all add: step_def callback_fetch_Resolved reject_Resolved)

lemma run_Resolved:
  "outcome l = Resolved v \<Longrightarrow> outcome (fst (run st ru l sigs)) = Resolved v"
proof (induction sigs arbitrary: l)
  case Nil
  then show ?case by simp
next
  case (Cons sig sigs)
  from Cons.prems have "outcome (fst (step st ru l sig)) = Resolved v" by (rule step_Resolved)
  then have "outcome (fst (run st ru (fst (step st ru l sig)) sigs)) = Resolved v"
    by (rule Cons.IH)
  then show ?case by (simp add: split_beta Let_def)
qed

lemma callback_fetch_resolves:
  "outcome (fst (callback_fetch st ru l q)) = Resolved v \<Longrightarrow>
   outcome l = Resolved v \<or>
   (q_state q = Some st \<and> q_code q = Some (cb_code v) \<and> cb_code v \<noteq> [] \<and> cb_redirectUri v = ru \<and>
    absent (q_error q))"
  by (cases "outcome l")
     (auto simp: callback_fetch_def resolve_def reject_def absent_def split: if_splits)

lemma step_resolves:
  "outcome (fst (step st ru l sig)) = Resolved v \<Longrightarrow>
   outcome l = Resolved v \<or>
   (\<exists>q. sig = Request q \<and> q_state q = Some st \<and> q_code q = Some (cb_code v) \<and>
       cb_redirectUri v = ru)"
proof (cases sig)
  case (Request q)
  assume "outcome (fst (step st ru l sig)) = Resolved v"
  with Request show ?thesis
    using callback_fetch_resolves [of st ru l q v]
    by (auto simp: step_def split: if_splits)
next
  case StopTimer
  assume "outcome (fst (step st ru l sig)) = Resolved v"
  with StopTimer show ?thesis by (simp add: step_def split: if_splits)
next
  case Timeout
  assume "outcome (fst (step st ru l sig)) = Resolved v"
  with Timeout show ?thesis by (auto simp: step_def dest: reject_not_Resolved)
qed

lemma run_resolves:
  "outcome (fst (run st ru l sigs)) = Resolved v \<Longrightarrow>
   outcome l = Resolved v \<or>
   (\<exists>q. Request q \<in> set sigs \<and> q_state q = Some st \<and> q_code q = Some (cb_code v) \<and>
       cb_redirectUri v = ru)"
proof (induction sigs arbitrary: l)
  case Nil
  then show ?case by simp
next
  case (Cons sig sigs)
  from Cons.prems have "outcome (fst (run st ru (fst (step st ru l sig)) sigs)) = Resolved v"
    by (simp add: split_beta Let_def)
  from Cons.IH [OF this] show ?case
  proof
    assume "outcome (fst (step st ru l sig)) = Resolved v"
    from step_resolves [OF this] show ?thesis by auto
  next
    assume "\<exists>q. Request q \<in> set sigs \<and> q_state q = Some st \<and> q_code q = Some (cb_code v) \<and>
       cb_redirectUri v = ru"
    then show ?thesis by auto
  qed
qed

text \<open>
  Claim C5, as the code has it. A request whose state differs from the expected one
  never resolves the flow; when the flow is pending and the request has a code and no
  error, it rejects the flow as a state mismatch. A request with the expected state
  and a code, and no error, resolves a pending flow with that code and the redirect
  address. Once the flow is resolved, no later request or timer changes the value it
  was resolved with, and a flow that ends resolved was resolved by a request with the
  expected state and that code. A request is answered with the waiting page exactly
  when it carries neither an error nor a code, before and after the resolution alike.
\<close>

theorem callback_listener:
  "(q_state q \<noteq> Some st \<and> outcome (fst (callback_fetch st ru l q)) = Resolved v \<longrightarrow>
      outcome l = Resolved v) \<and>
   (q_state q \<noteq> Some st \<and> outcome l = Pending \<and> absent (q_error q) \<and> \<not> absent (q_code q) \<longrightarrow>
      callback_fetch st ru l q =
        (l\<lparr>outcome := Rejected StateMismatch, stopTimers := Suc (stopTimers l)\<rparr>, MismatchPage)) \<and>
   (q_state q = Some st \<and> outcome l = Pending \<and> absent (q_error q) \<and> q_code q = Some c \<and> c \<noteq> [] \<longrightarrow>
      callback_fetch st ru l q =
        (l\<lparr>outcome := Resolved \<lparr>cb_code = c, cb_redirectUri = ru\<rparr>,
           stopTimers := Suc (stopTimers l)\<rparr>, AuthenticatedPage)) \<and>
   (outcome l = Resolved v \<longrightarrow> outcome (fst (run st ru l sigs)) = Resolved v) \<and>
   (outcome (fst (run st ru listening sigs)) = Resolved v \<longrightarrow>
      (\<exists>q'. Request q' \<in> set sigs \<and> q_state q' = Some st \<and> q_code q' = Some (cb_code v) \<and>
          cb_redirectUri v = ru)) \<and>
   (snd (callback_fetch st ru l q) = WaitingPage \<longleftrightarrow> absent (q_error q) \<and> absent (q_code q))"
proof (intro conjI impI)
  assume "q_state q \<noteq> Some st \<and> outcome (fst (callback_fetch st ru l q)) = Resolved v"
  then show "outcome l = Resolved v"
    using callback_fetch_resolves [of st ru l q v] by auto
next
  assume "q_state q \<noteq> Some st \<and> outcome l = Pending \<and> absent (q_error q) \<and> \<not> absent (q_code q)"
  then show "callback_fetch st ru l q =
        (l\<lparr>outcome := Rejected StateMismatch, stopTimers := Suc (stopTimers l)\<rparr>, MismatchPage)"
    by (simp add: callback_fetch_def reject_def)
next
  assume "q_state q = Some st \<and> outcome l = Pending \<and> absent (q_error q) \<and> q_code q = Some c \<and> c \<noteq> []"
  then show "callback_fetch st ru l q =
        (l\<lparr>outcome := Resolved \<lparr>cb_code = c, cb_redirectUri = ru\<rparr>,
           stopTimers := Suc (stopTimers l)\<rparr>, AuthenticatedPage)"
    by (simp add: callback_fetch_def resolve_def absent_def)
next
  assume "outcome l = Resolved v"
  then show "outcome (fst (run st ru l sigs)) = Resolved v" by (rule run_Resolved)
next
  assume "outcome (fst (run st ru listening sigs)) = Resolved v"
  from run_resolves [OF this]
  show "\<exists>q'. Request q' \<in> set sigs \<and> q_state q' = Some st \<and> q_code q' = Some (cb_code v) \<and>
          cb_redirectUri v = ru"
    by (simp add: listening_def)
next
  show "snd (callback_fetch st ru l q) = WaitingPage \<longleftrightarrow> absent (q_error q) \<and> absent (q_code q)"
    by (simp add: callback_fetch_def)
qed

text \<open>
  The claim C5 as written has every request after the resolution answered with the
  waiting page. A second request with code and state is answered as the first one was.
\<close>

theorem callback_second_request_counterexample:
  "outcome (fst (callback_fetch (js ''xyz'') (js ''http://localhost:1'') listening good_callback)) =
     Resolved \<lparr>cb_code = js ''abc'', cb_redirectUri = js ''http://localhost:1''\<rparr> \<and>
   snd (callback_fetch (js ''xyz'') (js ''http://localhost:1'')
          (fst (callback_fetch (js ''xyz'') (js ''http://localhost:1'') listening good_callback))
          good_callback) = AuthenticatedPage"
  by (simp add: callback_fetch_def listening_def good_callback_def resolve_def absent_def js_def)

theorem callback_listener_witness:
  "callback_fetch (js ''xyz'') (js ''http://localhost:1'') listening forged_callback =
     (listening\<lparr>outcome := Rejected StateMismatch, stopTimers := Suc (stopTimers listening)\<rparr>,
      MismatchPage) \<and>
   callback_fetch (js ''xyz'') (js ''http://localhost:1'') listening good_callback =
     (listening\<lparr>outcome := Resolved \<lparr>cb_code = js ''abc'', cb_redirectUri = js ''http://localhost:1''\<rparr>,
        stopTimers := Suc (stopTimers listening)\<rparr>, AuthenticatedPage) \<and>
   outcome (fst (run (js ''xyz'') (js ''http://localhost:1'')
       (fst (callback_fetch (js ''xyz'') (js ''http://localhost:1'') listening good_callback))
       [Request forged_callback, StopTimer, Request good_callback, Timeout])) =
     Resolved \<lparr>cb_code = js ''abc'', cb_redirectUri = js ''http://localhost:1''\<rparr>"
proof -
  let ?st = "js ''xyz''" and ?ru = "js ''http://localhost:1''"
  let ?v = "\<lparr>cb_code = js ''abc'', cb_redirectUri = js ''http://localhost:1''\<rparr>"
  let ?l1 = "fst (callback_fetch ?st ?ru listening good_callback)"
  have f: "q_state forged_callback \<noteq> Some ?st \<and> outcome listening = Pending \<and>
      absent (q_error forged_callback) \<and> \<not> absent (q_code forged_callback)"
    by (simp add: forged_callback_def listening_def absent_def js_def)
  have g: "q_state good_callback = Some ?st \<and> outcome listening = Pending \<and>
      absent (q_error good_callback) \<and> q_code good_callback = Some (js ''abc'') \<and> js ''abc'' \<noteq> []"
    by (simp add: good_callback_def listening_def absent_def js_def)
  note t1 = callback_listener [of forged_callback ?st ?ru listening]
  note t2 = callback_listener [of good_callback ?st ?ru listening _ "js ''abc''"]
  from t1 f have r1: "callback_fetch ?st ?ru listening forged_callback =
     (listening\<lparr>outcome := Rejected StateMismatch, stopTimers := Suc (stopTimers listening)\<rparr>,
      MismatchPage)" by blast
  from t2 g have r2: "callback_fetch ?st ?ru listening good_callback =
     (listening\<lparr>outcome := Resolved ?v, stopTimers := Suc (stopTimers listening)\<rparr>,
      AuthenticatedPage)" by blast
  then have o: "outcome ?l1 = Resolved ?v" by simp
  note t3 = callback_listener [of good_callback ?st ?ru ?l1 ?v _
      "[Request forged_callback, StopTimer, Request good_callback, Timeout]"]
  from t3 o have r3: "outcome (fst (run ?st ?ru ?l1
       [Request forged_callback, StopTimer, Request good_callback, Timeout])) = Resolved ?v"
    by blast
  from r1 r2 r3 show ?thesis by (intro conjI)
qed

end
